theory Spec2Isabelle
  imports Complex_Main "HOL-Library.AList"
begin

section \<open>JavaScript values\<close>

text \<open>
  The program is JavaScript (\<^verbatim>\<open>server-simple.mjs\<close>). Its numbers are IEEE doubles; the
  code only compares them, rounds them down and tests them for finiteness, so a finite
  number is modelled by its exact rational value and the three special values are
  constructors. A string is a list of code units; the model covers the code units below
  \<^verbatim>\<open>U+0100\<close>, one \<^typ>\<open>char\<close> each. Objects list their own properties in
  enumeration order.
\<close>

datatype jsnum = Num rat | NaN | PosInf | NegInf

datatype jsval =
    JUndefined
  | JNull
  | JBool bool
  | JNum jsnum
  | JStr string
  | JArr "jsval list"
  | JObj "(string \<times> jsval) list"

datatype js_error = TypeError | SyntaxError | IOError

text \<open>Truthiness, as used by \<^verbatim>\<open>!x\<close>, \<^verbatim>\<open>a || b\<close> and \<^verbatim>\<open>a && b\<close>.\<close>

fun truthy :: "jsval \<Rightarrow> bool" where
  "truthy JUndefined = False"
| "truthy JNull = False"
| "truthy (JBool b) = b"
| "truthy (JNum (Num q)) = (q \<noteq> 0)"
| "truthy (JNum NaN) = False"
| "truthy (JNum _) = True"
| "truthy (JStr s) = (s \<noteq> [])"
| "truthy (JArr _) = True"
| "truthy (JObj _) = True"

definition js_or :: "jsval \<Rightarrow> jsval \<Rightarrow> jsval" where
  "js_or a b = (if truthy a then a else b)"

text \<open>
  \<^verbatim>\<open>String.prototype.trim\<close> removes white space and line terminators from both ends.
  Below \<^verbatim>\<open>U+0100\<close> these are TAB, LF, VT, FF, CR, SPACE and NO-BREAK SPACE.
\<close>

definition is_ws :: "char \<Rightarrow> bool" where
  "is_ws c = (of_char c \<in> {9, 10, 11, 12, 13, 32, 160 :: nat})"

definition trim :: "string \<Rightarrow> string" where
  "trim s = rev (dropWhile is_ws (rev (dropWhile is_ws s)))"

text \<open>\<^verbatim>\<open>Number.isFinite(v)\<close>: true for finite numbers only, false for every other value.\<close>

fun isFinite :: "jsval \<Rightarrow> bool" where
  "isFinite (JNum (Num q)) = True"
| "isFinite _ = False"

text \<open>
  \<^verbatim>\<open>for (const v of values)\<close>: an array yields its elements, a string its characters,
  and any other value is not iterable, which throws a \<^verbatim>\<open>TypeError\<close>.
\<close>

fun iterate :: "jsval \<Rightarrow> js_error + jsval list" where
  "iterate (JArr vs) = Inr vs"
| "iterate (JStr s) = Inr (map (\<lambda>c. JStr [c]) s)"
| "iterate _ = Inl TypeError"

subsection \<open>Arithmetic on numbers\<close>

text \<open>\<^verbatim>\<open>x || d\<close> on a number: zero and NaN are falsy.\<close>

fun num_or :: "jsnum \<Rightarrow> jsnum \<Rightarrow> jsnum" where
  "num_or (Num q) d = (if q = 0 then d else Num q)"
| "num_or NaN d = d"
| "num_or PosInf d = PosInf"
| "num_or NegInf d = NegInf"

fun js_floor :: "jsnum \<Rightarrow> jsnum" where
  "js_floor (Num q) = Num (of_int \<lfloor>q\<rfloor>)"
| "js_floor x = x"

fun js_max :: "jsnum \<Rightarrow> jsnum \<Rightarrow> jsnum" where
  "js_max NaN _ = NaN"
| "js_max _ NaN = NaN"
| "js_max PosInf _ = PosInf"
| "js_max _ PosInf = PosInf"
| "js_max NegInf y = y"
| "js_max x NegInf = x"
| "js_max (Num a) (Num b) = Num (max a b)"

fun js_min :: "jsnum \<Rightarrow> jsnum \<Rightarrow> jsnum" where
  "js_min NaN _ = NaN"
| "js_min _ NaN = NaN"
| "js_min NegInf _ = NegInf"
| "js_min _ NegInf = NegInf"
| "js_min PosInf y = y"
| "js_min x PosInf = x"
| "js_min (Num a) (Num b) = Num (min a b)"

section \<open>uniqueStrings\<close>

text \<open>
  \<^verbatim>\<open>
  function uniqueStrings(values) {
    const seen = new Set();
    const out = [];
    for (const v of values) {
      if (typeof v !== 'string') continue;
      const s = v.trim();
      if (!s || seen.has(s)) continue;
      seen.add(s);
      out.push(s);
    }
    return out;
  }
  \<close>
\<close>

fun uniqueStrings_loop :: "jsval list \<Rightarrow> string set \<Rightarrow> string list \<Rightarrow> string list" where
  "uniqueStrings_loop [] seen out = out"
| "uniqueStrings_loop (JStr v # vs) seen out =
     (let s = trim v in
      if s = [] \<or> s \<in> seen then uniqueStrings_loop vs seen out
      else uniqueStrings_loop vs (insert s seen) (out @ [s]))"
| "uniqueStrings_loop (_ # vs) seen out = uniqueStrings_loop vs seen out"

definition uniqueStrings :: "jsval \<Rightarrow> js_error + string list" where
  "uniqueStrings values =
     (case iterate values of
        Inl e \<Rightarrow> Inl e
      | Inr vs \<Rightarrow> Inr (uniqueStrings_loop vs {} []))"

section \<open>The concurrency-limited executor\<close>

text \<open>
  \<^verbatim>\<open>
  async function runWithConcurrency(items, limit, worker) {
    const results = new Array(items.length);
    let nextIndex = 0;
    const concurrency = Math.max(1, Math.floor(limit || 1));

    async function runner() {
      while (true) {
        const current = nextIndex;
        nextIndex += 1;
        if (current >= items.length) return;
        results[current] = await worker(items[current], current);
      }
    }

    const runners = [];
    const runnerCount = Math.min(concurrency, items.length);
    for (let i = 0; i < runnerCount; i++) runners.push(runner());
    await Promise.all(runners);
    return results;
  }
  \<close>
  JavaScript runs one task at a time: a runner executes without interruption from the
  point where it is started or resumed up to its next \<^verbatim>\<open>await\<close> or its
  \<^verbatim>\<open>return\<close>. The only freedom is the order in which the pending worker promises
  settle. The model is a state machine over the shared variables and the runners; a
  schedule is the list of runner numbers in the order in which their awaited promises
  settle, and naming a runner that is not waiting changes nothing.

  A worker, when called, issues external calls at once (of type \<^typ>\<open>'c\<close>) and returns a
  promise, which later resolves with a result or rejects with an error. A slot of
  \<^verbatim>\<open>results\<close> that has not been assigned is a hole (\<^term>\<open>None\<close>).
\<close>

datatype ('e, 'r) settled = Resolved 'r | Rejected 'e

datatype runner = Awaiting nat | Returned | Failed

record ('c, 'e, 'r) pool =
  nextIndex :: nat
  results :: "'r option list"
  runners :: "runner list"
  invoked :: "nat list"
  issued :: "'c list"
  rejection :: "'e option"

type_synonym ('a, 'c, 'e, 'r) worker = "'a \<Rightarrow> nat \<Rightarrow> 'c list \<times> ('e, 'r) settled"

definition concurrency_of :: "jsnum \<Rightarrow> jsnum" where
  "concurrency_of limit = js_max (Num 1) (js_floor (num_or limit (Num 1)))"

text \<open>
  \<^verbatim>\<open>runnerCount\<close> is the minimum of a number and the finite length, so it is never
  \<^verbatim>\<open>+Infinity\<close>; the loop \<^verbatim>\<open>for (i = 0; i < runnerCount; i++)\<close> runs
  \<open>\<lceil>runnerCount\<rceil>\<close> times for a finite count and not at all for NaN or \<^verbatim>\<open>-Infinity\<close>.
\<close>

definition runnerCount :: "'a list \<Rightarrow> jsnum \<Rightarrow> nat" where
  "runnerCount items limit =
     (case js_min (concurrency_of limit) (Num (of_nat (length items))) of
        Num q \<Rightarrow> nat \<lceil>q\<rceil>
      | _ \<Rightarrow> 0)"

text \<open>
  One pass of a runner from the top of \<^verbatim>\<open>while (true)\<close>: it claims the next index
  and either returns or calls the worker and waits for it.
\<close>

definition runner_turn ::
  "'a list \<Rightarrow> ('a, 'c, 'e, 'r) worker \<Rightarrow> ('c, 'e, 'r) pool \<Rightarrow> runner \<times> ('c, 'e, 'r) pool" where
  "runner_turn items worker s =
     (let current = nextIndex s;
          s1 = s\<lparr>nextIndex := current + 1\<rparr>
      in if current \<ge> length items then (Returned, s1)
         else (Awaiting current,
               s1\<lparr>invoked := invoked s1 @ [current],
                  issued := issued s1 @ fst (worker (items ! current) current)\<rparr>))"

text \<open>\<^verbatim>\<open>runners.push(runner())\<close>: the new runner runs up to its first \<^verbatim>\<open>await\<close>.\<close>

definition spawn ::
  "'a list \<Rightarrow> ('a, 'c, 'e, 'r) worker \<Rightarrow> ('c, 'e, 'r) pool \<Rightarrow> ('c, 'e, 'r) pool" where
  "spawn items worker s =
     (case runner_turn items worker s of
        (st, s') \<Rightarrow> s'\<lparr>runners := runners s' @ [st]\<rparr>)"

text \<open>
  The promise awaited by runner \<open>j\<close> settles. On a result the runner stores it and goes
  round the loop again; on a rejection the runner's own promise rejects, and
  \<^verbatim>\<open>Promise.all\<close> keeps the first rejection.
\<close>

definition settle ::
  "'a list \<Rightarrow> ('a, 'c, 'e, 'r) worker \<Rightarrow> ('c, 'e, 'r) pool \<Rightarrow> nat \<Rightarrow> ('c, 'e, 'r) pool" where
  "settle items worker s j =
     (if j < length (runners s) then
        (case runners s ! j of
           Awaiting c \<Rightarrow>
             (case snd (worker (items ! c) c) of
                Resolved r \<Rightarrow>
                  (case runner_turn items worker (s\<lparr>results := (results s)[c := Some r]\<rparr>) of
                     (st, s') \<Rightarrow> s'\<lparr>runners := (runners s')[j := st]\<rparr>)
              | Rejected e \<Rightarrow>
                  s\<lparr>runners := (runners s)[j := Failed],
                    rejection := (case rejection s of None \<Rightarrow> Some e | Some e0 \<Rightarrow> Some e0)\<rparr>)
         | _ \<Rightarrow> s)
      else s)"

definition launch ::
  "'a list \<Rightarrow> jsnum \<Rightarrow> ('a, 'c, 'e, 'r) worker \<Rightarrow> ('c, 'e, 'r) pool" where
  "launch items limit worker =
     ((spawn items worker) ^^ (runnerCount items limit))
       \<lparr>nextIndex = 0, results = replicate (length items) None, runners = [],
        invoked = [], issued = [], rejection = None\<rparr>"

definition run_pool ::
  "'a list \<Rightarrow> jsnum \<Rightarrow> ('a, 'c, 'e, 'r) worker \<Rightarrow> nat list \<Rightarrow> ('c, 'e, 'r) pool" where
  "run_pool items limit worker sched = foldl (settle items worker) (launch items limit worker) sched"

text \<open>
  \<^verbatim>\<open>await Promise.all(runners); return results\<close>: the call has returned once every
  runner has returned, has thrown once a runner has rejected, and is pending otherwise
  (\<^term>\<open>None\<close>).
\<close>

definition settlement :: "('c, 'e, 'r) pool \<Rightarrow> ('e + 'r option list) option" where
  "settlement s =
     (case rejection s of
        Some e \<Rightarrow> Some (Inl e)
      | None \<Rightarrow> if list_all (\<lambda>r. r = Returned) (runners s) then Some (Inr (results s)) else None)"

definition runWithConcurrency ::
  "'a list \<Rightarrow> jsnum \<Rightarrow> ('a, 'c, 'e, 'r) worker \<Rightarrow> nat list \<Rightarrow> ('e + 'r option list) option" where
  "runWithConcurrency items limit worker sched = settlement (run_pool items limit worker sched)"

text \<open>The indices the worker has been called with, in call order.\<close>

definition worker_invocations ::
  "'a list \<Rightarrow> jsnum \<Rightarrow> ('a, 'c, 'e, 'r) worker \<Rightarrow> nat list \<Rightarrow> nat list" where
  "worker_invocations items limit worker sched = invoked (run_pool items limit worker sched)"

text \<open>The number of workers that have been called and have not settled yet.\<close>

fun is_awaiting :: "runner \<Rightarrow> bool" where
  "is_awaiting (Awaiting _) = True"
| "is_awaiting _ = False"

definition active_workers ::
  "'a list \<Rightarrow> jsnum \<Rightarrow> ('a, 'c, 'e, 'r) worker \<Rightarrow> nat list \<Rightarrow> nat" where
  "active_workers items limit worker sched =
     length (filter is_awaiting (runners (run_pool items limit worker sched)))"

text \<open>A worker whose promise always resolves: it issues \<open>fx x i\<close> and yields \<open>f x i\<close>.\<close>

definition resolving ::
  "('a \<Rightarrow> nat \<Rightarrow> 'c list) \<Rightarrow> ('a \<Rightarrow> nat \<Rightarrow> 'r) \<Rightarrow> ('a, 'c, 'e, 'r) worker" where
  "resolving fx f = (\<lambda>x i. (fx x i, Resolved (f x i)))"

text \<open>The limits the executor replaces by 1: zero, negative numbers, NaN and \<^verbatim>\<open>-Infinity\<close>.\<close>

fun non_positive_or_nan :: "jsnum \<Rightarrow> bool" where
  "non_positive_or_nan (Num q) = (q \<le> 0)"
| "non_positive_or_nan NaN = True"
| "non_positive_or_nan NegInf = True"
| "non_positive_or_nan PosInf = False"

text \<open>The invariant of the executor under a resolving worker, and its progress measure.\<close>

definition pool_inv :: "'a list \<Rightarrow> ('a \<Rightarrow> nat \<Rightarrow> 'r) \<Rightarrow> ('c, 'e, 'r) pool \<Rightarrow> bool" where
  "pool_inv items f s \<longleftrightarrow>
     length (results s) = length items \<and>
     rejection s = None \<and>
     (\<forall>j < length (runners s). runners s ! j \<noteq> Failed) \<and>
     invoked s = [0..<min (nextIndex s) (length items)] \<and>
     (\<forall>j < length (runners s). \<forall>c. runners s ! j = Awaiting c \<longrightarrow> c < length items) \<and>
     (\<forall>i < min (nextIndex s) (length items).
        results s ! i = Some (f (items ! i) i) \<or> (\<exists>j < length (runners s). runners s ! j = Awaiting i)) \<and>
     (nextIndex s < length items \<longrightarrow> (\<exists>j < length (runners s). \<exists>c. runners s ! j = Awaiting c))"

definition pending :: "'a list \<Rightarrow> ('c, 'e, 'r) pool \<Rightarrow> nat" where
  "pending items s = (length items - nextIndex s) + length (filter is_awaiting (runners s))"

section \<open>Objects and options\<close>

text \<open>
  Property lookup \<^verbatim>\<open>v.k\<close>: a missing property reads as \<^verbatim>\<open>undefined\<close>; reading a property of
  \<^verbatim>\<open>undefined\<close> or \<^verbatim>\<open>null\<close> throws. Only objects carry the property names read in this
  program. \<^verbatim>\<open>{...obj, ...src}\<close> writes the properties of \<open>src\<close> over those of \<open>obj\<close>.
\<close>

definition js_get :: "jsval \<Rightarrow> string \<Rightarrow> jsval" where
  "js_get v k =
     (case v of
        JObj ps \<Rightarrow> (case map_of ps k of Some x \<Rightarrow> x | None \<Rightarrow> JUndefined)
      | _ \<Rightarrow> JUndefined)"

fun property :: "jsval \<Rightarrow> string \<Rightarrow> js_error + jsval" where
  "property JUndefined k = Inl TypeError"
| "property JNull k = Inl TypeError"
| "property v k = Inr (js_get v k)"

definition spread :: "(string \<times> jsval) list \<Rightarrow> (string \<times> jsval) list \<Rightarrow> (string \<times> jsval) list" where
  "spread obj src = foldl (\<lambda>acc (k, v). AList.update k v acc) obj src"

text \<open>
  The assignment \<^verbatim>\<open>obj[k] = v\<close> on an ordinary object. An existing own property keeps
  its place. Among the own properties, the keys that are array indices (canonical decimal
  numerals up to \<open>2\<^sup>3\<^sup>2 - 2\<close>) are enumerated first, in ascending numeric order, and the
  other keys follow in insertion order. The key \<^verbatim>\<open>__proto__\<close> names an accessor of
  \<^verbatim>\<open>Object.prototype\<close>: assigning to it never creates an own property.
\<close>

definition is_digit :: "char \<Rightarrow> bool" where
  "is_digit c = (48 \<le> (of_char c :: nat) \<and> (of_char c :: nat) \<le> 57)"

definition digits_value :: "string \<Rightarrow> int" where
  "digits_value ds = foldl (\<lambda>a c. 10 * a + (int (of_char c) - 48)) 0 ds"

definition is_index_key :: "string \<Rightarrow> bool" where
  "is_index_key k =
     (k \<noteq> [] \<and> list_all is_digit k \<and> (k = ''0'' \<or> hd k \<noteq> CHR ''0'')
      \<and> digits_value k \<le> 4294967294)"

fun insert_index :: "string \<Rightarrow> jsval \<Rightarrow> (string \<times> jsval) list \<Rightarrow> (string \<times> jsval) list" where
  "insert_index k v [] = [(k, v)]"
| "insert_index k v (p # ps) =
     (if is_index_key (fst p) \<and> digits_value (fst p) < digits_value k
      then p # insert_index k v ps
      else (k, v) # p # ps)"

definition obj_set :: "string \<Rightarrow> jsval \<Rightarrow> (string \<times> jsval) list \<Rightarrow> (string \<times> jsval) list" where
  "obj_set k v obj =
     (if k = ''__proto__'' then obj
      else if is_index_key k \<and> map_of obj k = None then insert_index k v obj
      else AList.update k v obj)"

text \<open>\<^verbatim>\<open>Number.isFinite(v) ? v : d\<close>\<close>

definition finite_or :: "jsval \<Rightarrow> rat \<Rightarrow> rat" where
  "finite_or v d = (if isFinite v then (case v of JNum (Num q) \<Rightarrow> q | _ \<Rightarrow> d) else d)"

text \<open>A parameter with the default \<^verbatim>\<open>options = {}\<close>.\<close>

definition default_options :: "jsval \<Rightarrow> jsval" where
  "default_options options = (if options = JUndefined then JObj [] else options)"

text \<open>An array read out of \<^verbatim>\<open>results\<close>: a hole reads as \<^verbatim>\<open>undefined\<close>.\<close>

definition array_of :: "jsval option list \<Rightarrow> jsval" where
  "array_of rs = JArr (map (\<lambda>r. case r of None \<Rightarrow> JUndefined | Some v \<Rightarrow> v) rs)"

section \<open>Remote execution\<close>

text \<open>
  The external primitive is \<^verbatim>\<open>execFileAsync(file, args, {timeout, maxBuffer})\<close>. A call
  either completes with \<^verbatim>\<open>{stdout, stderr}\<close> or fails with an error object carrying
  \<^verbatim>\<open>message\<close>, \<^verbatim>\<open>stdout\<close>, \<^verbatim>\<open>stderr\<close> and \<^verbatim>\<open>code\<close>. The environment decides the outcome
  of every call.
\<close>

record exec_call =
  program :: string
  args :: "string list"
  timeout :: rat
  maxBuffer :: "int option"

datatype exec_outcome =
    Completed string string
  | ExecFailed string jsval jsval jsval

type_synonym exec_env = "exec_call \<Rightarrow> exec_outcome"

text \<open>
  \<^verbatim>\<open>
  async runRemoteCommand(hostAlias, command) {
    try {
      const { stdout, stderr } = await execFileAsync('ssh', [hostAlias, command], {
        timeout: 30000, // 30 second timeout
        maxBuffer: 1024 * 1024 * 10 // 10MB buffer
      });
      return { stdout: stdout || '', stderr: stderr || '', code: 0 };
    } catch (error) {
      return {
        stdout: error.stdout || '',
        stderr: error.stderr || error.message,
        code: error.code || 1
      };
    }
  }
  \<close>
\<close>

definition runRemoteCommand ::
  "exec_env \<Rightarrow> string \<Rightarrow> string \<Rightarrow> exec_call list \<times> (js_error, (string \<times> jsval) list) settled" where
  "runRemoteCommand env hostAlias command =
     (let call = \<lparr>program = ''ssh'', args = [hostAlias, command], timeout = 30000,
                  maxBuffer = Some (1024 * 1024 * 10)\<rparr>
      in ([call],
          Resolved
            (case env call of
               Completed out err \<Rightarrow>
                 [(''stdout'', js_or (JStr out) (JStr '''')),
                  (''stderr'', js_or (JStr err) (JStr '''')),
                  (''code'', JNum (Num 0))]
             | ExecFailed msg out err c \<Rightarrow>
                 [(''stdout'', js_or out (JStr '''')),
                  (''stderr'', js_or err (JStr msg)),
                  (''code'', js_or c (JNum (Num 1)))])))"

section \<open>runBatchCommand\<close>

text \<open>
  \<^verbatim>\<open>
  async runBatchCommand(hosts, command, options = {}) {
    const hostList = uniqueStrings(hosts || []);
    if (hostList.length === 0) {
      return { results: [], success: false, message: 'No hosts provided' };
    }
    if (typeof command !== 'string' || command.trim() === '') {
      return { results: [], success: false, message: 'No command provided' };
    }

    const concurrency = Number.isFinite(options.concurrency) ? options.concurrency : 5;
    const perHostTimeoutMs = Number.isFinite(options.timeoutMs) ? options.timeoutMs : 30000;

    const results = await runWithConcurrency(hostList, concurrency, async (hostAlias) => {
      const result = await this.runRemoteCommand(hostAlias, command);
      return { host: hostAlias, ...result };
    });

    const success = results.every(r => r && r.code === 0);
    return { results, success };
  }
  \<close>
  A run of a fan-out operation is recorded with what it returned or threw (\<^term>\<open>None\<close>
  while it is pending under the given schedule), the external calls it issued, and the
  item list and limit of every invocation of the executor.
\<close>

record run =
  outcome :: "(js_error + jsval) option"
  calls :: "exec_call list"
  executor_runs :: "(string list \<times> jsnum) list"

definition returned :: "jsval \<Rightarrow> run" where
  "returned v = \<lparr>outcome = Some (Inr v), calls = [], executor_runs = []\<rparr>"

definition thrown :: "js_error \<Rightarrow> run" where
  "thrown e = \<lparr>outcome = Some (Inl e), calls = [], executor_runs = []\<rparr>"

definition failure :: "string \<Rightarrow> jsval" where
  "failure msg = JObj [(''results'', JArr []), (''success'', JBool False), (''message'', JStr msg)]"

definition batch_worker :: "exec_env \<Rightarrow> string \<Rightarrow> (string, exec_call, js_error, jsval) worker" where
  "batch_worker env command = (\<lambda>hostAlias i.
     case runRemoteCommand env hostAlias command of
       (cs, Resolved result) \<Rightarrow> (cs, Resolved (JObj (spread [(''host'', JStr hostAlias)] result)))
     | (cs, Rejected e) \<Rightarrow> (cs, Rejected e))"

text \<open>\<^verbatim>\<open>results.every(r => r && r.code === 0)\<close>; \<^verbatim>\<open>every\<close> skips holes.\<close>

definition every_code_zero :: "jsval option list \<Rightarrow> bool" where
  "every_code_zero rs =
     list_all (\<lambda>r. case r of None \<Rightarrow> True
                  | Some v \<Rightarrow> truthy v \<and> js_get v ''code'' = JNum (Num 0)) rs"

definition runBatchCommand :: "exec_env \<Rightarrow> nat list \<Rightarrow> jsval \<Rightarrow> jsval \<Rightarrow> jsval \<Rightarrow> run" where
  "runBatchCommand env sched hosts command options0 =
     (let options = default_options options0 in
      case uniqueStrings (js_or hosts (JArr [])) of
        Inl e \<Rightarrow> thrown e
      | Inr hostList \<Rightarrow>
          if length hostList = 0 then returned (failure ''No hosts provided'')
          else (case command of
            JStr cmd \<Rightarrow>
              if trim cmd = [] then returned (failure ''No command provided'')
              else (case property options ''concurrency'' of
                Inl e \<Rightarrow> thrown e
              | Inr c \<Rightarrow>
                 (case property options ''timeoutMs'' of
                    Inl e \<Rightarrow> thrown e
                  | Inr t \<Rightarrow>
                     (let concurrency = finite_or c 5;
                          perHostTimeoutMs = finite_or t 30000;
                          pool = run_pool hostList (Num concurrency) (batch_worker env cmd) sched
                      in \<lparr>outcome =
                            (case settlement pool of
                               None \<Rightarrow> None
                             | Some (Inl e) \<Rightarrow> Some (Inl e)
                             | Some (Inr rs) \<Rightarrow>
                                 Some (Inr (JObj [(''results'', array_of rs),
                                                  (''success'', JBool (every_code_zero rs))]))),
                          calls = issued pool,
                          executor_runs = [(hostList, Num concurrency)]\<rparr>)))
          | _ \<Rightarrow> returned (failure ''No command provided'')))"

subsection \<open>The host list in the words of the specification\<close>

text \<open>
  The string entries of a host array, the list without later repetitions of an element
  (first-seen order), and the entries that are left after trimming.
\<close>

fun strings_of :: "jsval list \<Rightarrow> string list" where
  "strings_of [] = []"
| "strings_of (JStr s # vs) = s # strings_of vs"
| "strings_of (_ # vs) = strings_of vs"

definition first_seen :: "'a list \<Rightarrow> 'a list" where
  "first_seen xs = rev (remdups (rev xs))"

definition trimmed_names :: "jsval list \<Rightarrow> string list" where
  "trimmed_names vs = filter (\<lambda>s. s \<noteq> []) (map trim (strings_of vs))"

definition spec_host_list :: "jsval list \<Rightarrow> string list" where
  "spec_host_list vs = first_seen (filter (\<lambda>s. trim s \<noteq> []) (strings_of vs))"

fun nonblank_string :: "jsval \<Rightarrow> bool" where
  "nonblank_string (JStr s) = (trim s \<noteq> [])"
| "nonblank_string _ = False"

text \<open>An environment in which every call completes.\<close>

definition always_ok :: exec_env where
  "always_ok = (\<lambda>c. Completed ''ok'' '''')"

definition ssh_call :: "string \<Rightarrow> string \<Rightarrow> exec_call" where
  "ssh_call hostAlias command =
     \<lparr>program = ''ssh'', args = [hostAlias, command], timeout = 30000, maxBuffer = Some 10485760\<rparr>"

section \<open>syncFile\<close>

text \<open>
  \<^verbatim>\<open>
  async syncFile(localPath, remotePath, hosts, options = {}) {
    const hostList = uniqueStrings(hosts || []);
    if (hostList.length === 0) {
      return { results: [], success: false, message: 'No hosts provided' };
    }
    if (!localPath || typeof localPath !== 'string') {
      return { results: [], success: false, message: 'No local path provided' };
    }
    if (!remotePath || typeof remotePath !== 'string') {
      return { results: [], success: false, message: 'No remote path provided' };
    }

    const useRsync = options.useRsync === true;
    const concurrency = Number.isFinite(options.concurrency) ? options.concurrency : 5;
    const timeoutMs = Number.isFinite(options.timeoutMs) ? options.timeoutMs : 120000;

    const results = await runWithConcurrency(hostList, concurrency, async (hostAlias) => {
      try {
        if (useRsync) {
          const rsyncArgs = ['-avz', '--progress'];
          if (options.delete) {
            rsyncArgs.push('--delete');
          }
          rsyncArgs.push(localPath, `${hostAlias}:${remotePath}`);
          const { stdout, stderr } = await execFileAsync('rsync', rsyncArgs, { timeout: timeoutMs });
          return { host: hostAlias, success: true, stdout: stdout || '', stderr: stderr || '' };
        } else {
          const { stdout, stderr } = await execFileAsync('scp',
            ['-r', localPath, `${hostAlias}:${remotePath}`], { timeout: timeoutMs });
          return { host: hostAlias, success: true, stdout: stdout || '', stderr: stderr || '' };
        }
      } catch (error) {
        return { host: hostAlias, success: false, error: error.message,
                 stdout: error.stdout || '', stderr: error.stderr || '' };
      }
    });

    const allSuccess = results.every(r => r && r.success);
    return {
      results,
      success: allSuccess,
      successCount: results.filter(r => r && r.success).length,
      failCount: results.filter(r => r && !r.success).length
    };
  }
  \<close>
  A string is falsy exactly when it is empty, so \<^verbatim>\<open>!p || typeof p !== 'string'\<close> holds for
  every value that is not a string and for the empty string.
\<close>

definition sync_result :: "exec_env \<Rightarrow> exec_call \<Rightarrow> string \<Rightarrow> jsval" where
  "sync_result env call hostAlias =
     (case env call of
        Completed out err \<Rightarrow>
          JObj [(''host'', JStr hostAlias), (''success'', JBool True),
                (''stdout'', js_or (JStr out) (JStr '''')),
                (''stderr'', js_or (JStr err) (JStr ''''))]
      | ExecFailed msg out err c \<Rightarrow>
          JObj [(''host'', JStr hostAlias), (''success'', JBool False),
                (''error'', JStr msg),
                (''stdout'', js_or out (JStr '''')),
                (''stderr'', js_or err (JStr ''''))])"

definition sync_worker ::
  "exec_env \<Rightarrow> string \<Rightarrow> string \<Rightarrow> bool \<Rightarrow> jsval \<Rightarrow> rat
     \<Rightarrow> (string, exec_call, js_error, jsval) worker" where
  "sync_worker env localPath remotePath useRsync options timeoutMs = (\<lambda>hostAlias i.
     if useRsync then
       (let rsyncArgs = [''-avz'', ''--progress''];
            rsyncArgs = (if truthy (js_get options ''delete'') then rsyncArgs @ [''--delete'']
                         else rsyncArgs);
            rsyncArgs = rsyncArgs @ [localPath, hostAlias @ '':'' @ remotePath];
            call = \<lparr>program = ''rsync'', args = rsyncArgs, timeout = timeoutMs, maxBuffer = None\<rparr>
        in ([call], Resolved (sync_result env call hostAlias)))
     else
       (let call = \<lparr>program = ''scp'', args = [''-r'', localPath, hostAlias @ '':'' @ remotePath],
                     timeout = timeoutMs, maxBuffer = None\<rparr>
        in ([call], Resolved (sync_result env call hostAlias))))"

definition succeeded :: "jsval option \<Rightarrow> bool" where
  "succeeded r = (case r of None \<Rightarrow> False | Some v \<Rightarrow> truthy v \<and> truthy (js_get v ''success''))"

definition not_succeeded :: "jsval option \<Rightarrow> bool" where
  "not_succeeded r = (case r of None \<Rightarrow> False | Some v \<Rightarrow> truthy v \<and> \<not> truthy (js_get v ''success''))"

text \<open>\<^verbatim>\<open>results.every(r => r && r.success)\<close>; \<^verbatim>\<open>every\<close> and \<^verbatim>\<open>filter\<close> skip holes.\<close>

definition every_success :: "jsval option list \<Rightarrow> bool" where
  "every_success rs = list_all (\<lambda>r. case r of None \<Rightarrow> True | Some v \<Rightarrow> succeeded r) rs"

definition syncFile ::
  "exec_env \<Rightarrow> nat list \<Rightarrow> jsval \<Rightarrow> jsval \<Rightarrow> jsval \<Rightarrow> jsval \<Rightarrow> run" where
  "syncFile env sched localPath remotePath hosts options0 =
     (let options = default_options options0 in
      case uniqueStrings (js_or hosts (JArr [])) of
        Inl e \<Rightarrow> thrown e
      | Inr hostList \<Rightarrow>
          if length hostList = 0 then returned (failure ''No hosts provided'')
          else (case localPath of
            JStr lp \<Rightarrow>
              if lp = [] then returned (failure ''No local path provided'')
              else (case remotePath of
                JStr rp \<Rightarrow>
                  if rp = [] then returned (failure ''No remote path provided'')
                  else (case property options ''useRsync'' of
                    Inl e \<Rightarrow> thrown e
                  | Inr u \<Rightarrow>
                     (case property options ''concurrency'' of
                        Inl e \<Rightarrow> thrown e
                      | Inr c \<Rightarrow>
                         (case property options ''timeoutMs'' of
                            Inl e \<Rightarrow> thrown e
                          | Inr t \<Rightarrow>
                             (let useRsync = (u = JBool True);
                                  concurrency = finite_or c 5;
                                  timeoutMs = finite_or t 120000;
                                  pool = run_pool hostList (Num concurrency)
                                           (sync_worker env lp rp useRsync options timeoutMs) sched
                              in \<lparr>outcome =
                                    (case settlement pool of
                                       None \<Rightarrow> None
                                     | Some (Inl e) \<Rightarrow> Some (Inl e)
                                     | Some (Inr rs) \<Rightarrow>
                                         Some (Inr (JObj
                                           [(''results'', array_of rs),
                                            (''success'', JBool (every_success rs)),
                                            (''successCount'',
                                               JNum (Num (of_nat (length (filter succeeded rs))))),
                                            (''failCount'',
                                               JNum (Num (of_nat (length (filter not_succeeded rs)))))]))),
                                  calls = issued pool,
                                  executor_runs = [(hostList, Num concurrency)]\<rparr>))))
              | _ \<Rightarrow> returned (failure ''No remote path provided''))
          | _ \<Rightarrow> returned (failure ''No local path provided'')))"

fun nonempty_string :: "jsval \<Rightarrow> bool" where
  "nonempty_string (JStr s) = (s \<noteq> [])"
| "nonempty_string _ = False"

section \<open>loadGroupsFile\<close>

text \<open>
  \<^verbatim>\<open>
  async function loadGroupsFile(groupsPath) {
    try {
      const content = await readFile(groupsPath, 'utf-8');
      const parsed = JSON.parse(content);

      // Expected format: { "group-name": ["host1", "host2"] }
      const groups = {};
      if (parsed && typeof parsed === 'object') {
        for (const [groupName, hosts] of Object.entries(parsed)) {
          if (!Array.isArray(hosts)) continue;
          groups[groupName] = hosts.filter(h => typeof h === 'string' && h.trim() !== '');
        }
      }
      return groups;
    } catch (error) {
      // Missing or invalid file should not break the server
      return {};
    }
  }
  \<close>
  The input of the model is what \<^verbatim>\<open>readFile\<close> and \<^verbatim>\<open>JSON.parse\<close> deliver: the file
  cannot be read, its content is not JSON, or the parsed value. \<^verbatim>\<open>typeof v === 'object'\<close>
  holds for objects, arrays and \<^verbatim>\<open>null\<close>. \<^verbatim>\<open>Object.entries\<close> of an array pairs each
  index, written in decimal, with its element.
\<close>

datatype groups_file = Unreadable | Unparseable | Parsed jsval

fun typeof_object :: "jsval \<Rightarrow> bool" where
  "typeof_object JNull = True"
| "typeof_object (JArr _) = True"
| "typeof_object (JObj _) = True"
| "typeof_object _ = False"

fun decimal :: "nat \<Rightarrow> string" where
  "decimal n = (if n < 10 then [char_of (48 + n)]
                else decimal (n div 10) @ [char_of (48 + n mod 10)])"

declare decimal.simps [simp del]

fun entries :: "jsval \<Rightarrow> (string \<times> jsval) list" where
  "entries (JObj ps) = ps"
| "entries (JArr xs) = zip (map decimal [0..<length xs]) xs"
| "entries (JStr s) = zip (map decimal [0..<length s]) (map (\<lambda>c. JStr [c]) s)"
| "entries _ = []"

fun nonblank_entry :: "jsval \<Rightarrow> bool" where
  "nonblank_entry (JStr h) = (trim h \<noteq> [])"
| "nonblank_entry _ = False"

definition add_group :: "(string \<times> jsval) list \<Rightarrow> string \<times> jsval \<Rightarrow> (string \<times> jsval) list" where
  "add_group groups entry =
     (case entry of
        (groupName, JArr hosts) \<Rightarrow> obj_set groupName (JArr (filter nonblank_entry hosts)) groups
      | _ \<Rightarrow> groups)"

definition loadGroupsFile :: "groups_file \<Rightarrow> (string \<times> jsval) list" where
  "loadGroupsFile f =
     (case f of
        Unreadable \<Rightarrow> []
      | Unparseable \<Rightarrow> []
      | Parsed parsed \<Rightarrow>
          if truthy parsed \<and> typeof_object parsed
          then foldl add_group [] (entries parsed)
          else [])"

section \<open>SSH configuration files\<close>

text \<open>
  The parser of configuration files is the external library \<^verbatim>\<open>ssh-config\<close>. It delivers
  a list of nodes; a node has \<^verbatim>\<open>param\<close>, \<^verbatim>\<open>value\<close> and, for a \<^verbatim>\<open>Host\<close> section, the
  nodes of the block in \<^verbatim>\<open>config\<close>. The value is a string, or an array of strings
  where the parser splits the arguments of a directive. The lines that follow a
  \<^verbatim>\<open>Host\<close> line, up to the next \<^verbatim>\<open>Host\<close> or \<^verbatim>\<open>Match\<close> line, are the nodes of its
  block, whatever their directive. A comment or blank line is a node without
  \<^verbatim>\<open>param\<close>; it is modelled with the empty string, which the code treats alike (it is
  falsy and equal to no directive name).

  The file system, the parser and the path functions are parameters of the model.
\<close>

datatype nodeval = Single string | Several "string list"

datatype line = Line (param: string) (pvalue: nodeval) (config: "line list")

fun join :: "char \<Rightarrow> string list \<Rightarrow> string" where
  "join c [] = []"
| "join c [w] = w"
| "join c (w # ws) = w @ c # join c ws"

text \<open>
  The value of a node as a JavaScript value, and its conversion to a string
  (\<^verbatim>\<open>String(v)\<close> joins the elements of an array with commas).
\<close>

fun js_of :: "nodeval \<Rightarrow> jsval" where
  "js_of (Single s) = JStr s"
| "js_of (Several xs) = JArr (map JStr xs)"

fun to_string :: "nodeval \<Rightarrow> string" where
  "to_string (Single s) = s"
| "to_string (Several xs) = join (CHR '','') xs"

record fs =
  existsSync :: "string \<Rightarrow> bool"
  readFile :: "string \<Rightarrow> js_error + string"
  parse :: "string \<Rightarrow> js_error + line list"
  homedir :: string
  dirname :: "string \<Rightarrow> string"
  resolve :: "string \<Rightarrow> string \<Rightarrow> string"
  glob_sync :: "string \<Rightarrow> js_error + string list"

definition starts_with :: "string \<Rightarrow> string \<Rightarrow> bool" where
  "starts_with p s = (take (length p) s = p)"

text \<open>\<^verbatim>\<open>toLowerCase\<close> on the code units below \<^verbatim>\<open>U+0100\<close>.\<close>

definition lower_char :: "char \<Rightarrow> char" where
  "lower_char c =
     (let n = (of_char c :: nat)
      in if (65 \<le> n \<and> n \<le> 90) \<or> (192 \<le> n \<and> n \<le> 222 \<and> n \<noteq> 215)
         then char_of (n + 32) else c)"

definition toLowerCase :: "string \<Rightarrow> string" where
  "toLowerCase s = map lower_char s"

text \<open>
  \<^verbatim>\<open>parseInt(s, 10)\<close>: leading white space, an optional sign, then the longest run of
  decimal digits; NaN when there is no digit. The result is a double: an integer of more
  than 53 bits is rounded to 53 significant bits, ties to even, and to an infinity from
  \<open>2\<^sup>1\<^sup>0\<^sup>2\<^sup>4\<close> on.
\<close>

function bit_length :: "int \<Rightarrow> nat" where
  "bit_length a = (if a \<le> 0 then 0 else Suc (bit_length (a div 2)))"
  by pat_completeness auto
termination
  by (relation "measure nat") auto

declare bit_length.simps [simp del]

definition to_double :: "int \<Rightarrow> jsnum" where
  "to_double n =
     (let a = \<bar>n\<bar> in
      if a < 2 ^ 53 then Num (of_int n)
      else
        (let e = bit_length a - 53;
             q = a div 2 ^ e;
             r = a mod 2 ^ e;
             half = 2 ^ (e - 1);
             q' = (if r > half \<or> (r = half \<and> odd q) then q + 1 else q);
             v = q' * 2 ^ e
         in if v \<ge> 2 ^ 1024 then (if n < 0 then NegInf else PosInf)
            else Num (of_int (if n < 0 then - v else v))))"

definition parseInt10 :: "string \<Rightarrow> jsnum" where
  "parseInt10 s =
     (let t = dropWhile is_ws s;
          neg = (t \<noteq> [] \<and> hd t = CHR ''-'');
          u = (if t \<noteq> [] \<and> (hd t = CHR ''-'' \<or> hd t = CHR ''+'') then tl t else t);
          ds = takeWhile is_digit u
      in if ds = [] then NaN
         else to_double (if neg then - digits_value ds else digits_value ds))"

subsection \<open>expandIncludePath\<close>

text \<open>
  \<^verbatim>\<open>
  expandIncludePath(includePath, baseConfigPath) {
    if (includePath.startsWith('~/')) {
      includePath = includePath.replace('~', homedir());
    }
    if (!includePath.startsWith('/')) {
      const baseDir = dirname(baseConfigPath);
      includePath = resolve(baseDir, includePath);
    }
    try {
      if (includePath.includes('*') || includePath.includes('?')) {
        return glob.sync(includePath).filter(path => existsSync(path));
      } else {
        return existsSync(includePath) ? [includePath] : [];
      }
    } catch (error) {
      return [];
    }
  }
  \<close>
\<close>

text \<open>
  \<^verbatim>\<open>s.replace('~', r)\<close> replaces the first \<^verbatim>\<open>~\<close> by the expansion of \<open>r\<close>, in which
  \<^verbatim>\<open>$$\<close> stands for \<^verbatim>\<open>$\<close>, \<^verbatim>\<open>$&\<close> for the matched text, and \<^verbatim>\<open>$`\<close> and \<^verbatim>\<open>$'\<close> for
  the text before and after the match. Here the match is the first character of the path.
\<close>

fun get_substitution :: "string \<Rightarrow> string \<Rightarrow> string \<Rightarrow> string \<Rightarrow> string" where
  "get_substitution matched left right [] = []"
| "get_substitution matched left right [c] = [c]"
| "get_substitution matched left right (c # d # r) =
     (if c = CHR ''$'' \<and> d = CHR ''$'' then CHR ''$'' # get_substitution matched left right r
      else if c = CHR ''$'' \<and> d = CHR ''&'' then matched @ get_substitution matched left right r
      else if c = CHR ''$'' \<and> d = CHR 0x60 then left @ get_substitution matched left right r
      else if c = CHR ''$'' \<and> d = CHR 0x27 then right @ get_substitution matched left right r
      else c # get_substitution matched left right (d # r))"

text \<open>The body of the function for a path that is a string.\<close>

definition expand_path :: "fs \<Rightarrow> string \<Rightarrow> string \<Rightarrow> string list" where
  "expand_path env includePath0 baseConfigPath =
     (let includePath = (if starts_with ''~/'' includePath0
                         then get_substitution ''~'' [] (tl includePath0) (homedir env)
                              @ tl includePath0
                         else includePath0);
          includePath = (if \<not> starts_with ''/'' includePath
                         then resolve env (dirname env baseConfigPath) includePath
                         else includePath)
      in if CHR ''*'' \<in> set includePath \<or> CHR ''?'' \<in> set includePath
         then (case glob_sync env includePath of
                 Inl e \<Rightarrow> []
               | Inr paths \<Rightarrow> filter (existsSync env) paths)
         else if existsSync env includePath then [includePath] else [])"

text \<open>
  An array has no method \<^verbatim>\<open>startsWith\<close>: for a value that is an array the first line of
  the function throws a \<^verbatim>\<open>TypeError\<close>, outside its \<^verbatim>\<open>try\<close>.
\<close>

definition expandIncludePath :: "fs \<Rightarrow> nodeval \<Rightarrow> string \<Rightarrow> js_error + string list" where
  "expandIncludePath env includePath baseConfigPath =
     (case includePath of
        Single p \<Rightarrow> Inr (expand_path env p baseConfigPath)
      | Several ps \<Rightarrow> Inl TypeError)"

subsection \<open>extractHostsFromConfig\<close>

text \<open>
  \<^verbatim>\<open>
  extractHostsFromConfig(config, configPath) {
    const hosts = [];
    for (const section of config) {
      if (section.param === 'Include') { continue; }
      if (section.param === 'Host' && section.value !== '*') {
        const hostInfo = { hostname: '', alias: section.value, configFile: configPath };
        for (const param of section.config) {
          if (!param || !param.param) { continue; }
          switch (param.param.toLowerCase()) {
            case 'hostname': hostInfo.hostname = param.value; break;
            case 'user': hostInfo.user = param.value; break;
            case 'port': hostInfo.port = parseInt(param.value, 10); break;
            case 'identityfile': hostInfo.identityFile = param.value; break;
            default: hostInfo[param.param.toLowerCase()] = param.value;
          }
        }
        if (hostInfo.hostname) { hosts.push(hostInfo); }
      }
    }
    return hosts;
  }
  \<close>
  A host record is an object: the list of its properties in insertion order.
\<close>

type_synonym host = "(string \<times> jsval) list"

definition set_param :: "host \<Rightarrow> line \<Rightarrow> host" where
  "set_param hostInfo p =
     (if param p = [] then hostInfo
      else let key = toLowerCase (param p) in
        if key = ''hostname'' then AList.update ''hostname'' (js_of (pvalue p)) hostInfo
        else if key = ''user'' then AList.update ''user'' (js_of (pvalue p)) hostInfo
        else if key = ''port''
          then AList.update ''port'' (JNum (parseInt10 (to_string (pvalue p)))) hostInfo
        else if key = ''identityfile''
          then AList.update ''identityFile'' (js_of (pvalue p)) hostInfo
        else obj_set key (js_of (pvalue p)) hostInfo)"

definition extract_section :: "string \<Rightarrow> host list \<Rightarrow> line \<Rightarrow> host list" where
  "extract_section configPath hosts section =
     (if param section = ''Include'' then hosts
      else if param section = ''Host'' \<and> pvalue section \<noteq> Single ''*'' then
        (let hostInfo = foldl set_param
                          [(''hostname'', JStr []), (''alias'', js_of (pvalue section)),
                           (''configFile'', JStr configPath)]
                          (config section)
         in if truthy (js_get (JObj hostInfo) ''hostname'') then hosts @ [hostInfo] else hosts)
      else hosts)"

definition extractHostsFromConfig :: "line list \<Rightarrow> string \<Rightarrow> host list" where
  "extractHostsFromConfig cfg configPath = foldl (extract_section configPath) [] cfg"

subsection \<open>processIncludeDirectives\<close>

text \<open>
  \<^verbatim>\<open>
  async processIncludeDirectives(configPath) {
    if (!existsSync(configPath)) { return []; }
    try {
      const content = await readFile(configPath, 'utf-8');
      const config = sshConfig.parse(content);
      const hosts = [];
      for (const section of config) {
        if (section.param === 'Include' && section.value) {
          const includePaths = this.expandIncludePath(section.value, configPath);
          for (const includePath of includePaths) {
            try {
              const includeHosts = await this.processIncludeDirectives(includePath);
              hosts.push(...includeHosts);
            } catch (error) { }
          }
        }
      }
      const currentHosts = this.extractHostsFromConfig(config, configPath);
      hosts.push(...currentHosts);
      return hosts;
    } catch (error) {
      return [];
    }
  }
  \<close>
  The function performs no cycle detection, so it need not return. The model counts the
  depth of the recursion down from a bound and yields \<^term>\<open>None\<close> when the bound is
  used up. The two loops take the recursive call as an argument. An error thrown in the
  outer \<^verbatim>\<open>try\<close> block ends the loop and makes the function return \<^verbatim>\<open>[]\<close>.
\<close>

fun include_paths_loop ::
  "(string \<Rightarrow> host list option) \<Rightarrow> string list \<Rightarrow> host list \<Rightarrow> host list option" where
  "include_paths_loop rec [] hosts = Some hosts"
| "include_paths_loop rec (includePath # rest) hosts =
     (case rec includePath of
        None \<Rightarrow> None
      | Some includeHosts \<Rightarrow> include_paths_loop rec rest (hosts @ includeHosts))"

fun sections_loop ::
  "(string \<Rightarrow> host list option) \<Rightarrow> fs \<Rightarrow> string \<Rightarrow> line list \<Rightarrow> host list
     \<Rightarrow> (js_error + host list) option" where
  "sections_loop rec env configPath [] hosts = Some (Inr hosts)"
| "sections_loop rec env configPath (section # rest) hosts =
     (if param section = ''Include'' \<and> truthy (js_of (pvalue section))
      then (case expandIncludePath env (pvalue section) configPath of
              Inl e \<Rightarrow> Some (Inl e)
            | Inr includePaths \<Rightarrow>
               (case include_paths_loop rec includePaths hosts of
                  None \<Rightarrow> None
                | Some hosts' \<Rightarrow> sections_loop rec env configPath rest hosts'))
      else sections_loop rec env configPath rest hosts)"

fun processIncludeDirectives :: "nat \<Rightarrow> fs \<Rightarrow> string \<Rightarrow> host list option" where
  "processIncludeDirectives 0 env configPath = None"
| "processIncludeDirectives (Suc depth) env configPath =
     (if \<not> existsSync env configPath then Some []
      else (case readFile env configPath of
              Inl e \<Rightarrow> Some []
            | Inr content \<Rightarrow>
               (case parse env content of
                  Inl e \<Rightarrow> Some []
                | Inr cfg \<Rightarrow>
                   (case sections_loop (processIncludeDirectives depth env) env configPath cfg [] of
                      None \<Rightarrow> None
                    | Some (Inl e) \<Rightarrow> Some []
                    | Some (Inr hosts) \<Rightarrow> Some (hosts @ extractHostsFromConfig cfg configPath)))))"





subsection \<open>parseKnownHosts\<close>

text \<open>
  \<^verbatim>\<open>
  async parseKnownHosts() {
    if (!existsSync(this.knownHostsPath)) { return []; }
    try {
      const content = await readFile(this.knownHostsPath, 'utf-8');
      const knownHosts = content
        .split('\n')
        .filter(line => line.trim() !== '' && !line.startsWith('#'))
        .map(line => {
          // Format: hostname[,hostname2...] key-type public-key
          const parts = line.split(' ')[0];
          return parts.split(',')[0];
        })
        .filter(host => host); // Remove any empty entries
      return knownHosts;
    } catch (error) {
      return [];
    }
  }
  \<close>
  \<^verbatim>\<open>s.split(c)\<close> with a one-character separator always has a first element.
\<close>

fun split_on :: "char \<Rightarrow> string \<Rightarrow> string list" where
  "split_on c [] = [[]]"
| "split_on c (x # xs) =
     (if x = c then [] # split_on c xs
      else (case split_on c xs of
              w # ws \<Rightarrow> (x # w) # ws
            | [] \<Rightarrow> [[x]]))"

definition known_host_of_line :: "string \<Rightarrow> string" where
  "known_host_of_line row =
     (let parts = hd (split_on (CHR '' '') row) in hd (split_on (CHR '','') parts))"

definition known_hosts_of_content :: "string \<Rightarrow> string list" where
  "known_hosts_of_content content =
     filter (\<lambda>host. host \<noteq> [])
       (map known_host_of_line
          (filter (\<lambda>row. trim row \<noteq> [] \<and> \<not> starts_with ''#'' row)
             (split_on (CHR 0x0A) content)))"

definition parseKnownHosts :: "fs \<Rightarrow> string \<Rightarrow> string list" where
  "parseKnownHosts env knownHostsPath =
     (if \<not> existsSync env knownHostsPath then []
      else (case readFile env knownHostsPath of
              Inl e \<Rightarrow> []
            | Inr content \<Rightarrow> known_hosts_of_content content))"

subsection \<open>getAllKnownHosts\<close>

text \<open>
  \<^verbatim>\<open>
  async getAllKnownHosts() {
    const configHosts = await this.processIncludeDirectives(this.configPath);
    const knownHostnames = await this.parseKnownHosts();
    const allHosts = [...configHosts];
    for (const hostname of knownHostnames) {
      if (!configHosts.some(host => host.hostname === hostname || host.alias === hostname)) {
        allHosts.push({ hostname: hostname, source: 'known_hosts' });
      }
    }
    configHosts.forEach(host => { host.source = 'ssh_config'; });
    return allHosts;
  }
  \<close>
  \<^verbatim>\<open>allHosts\<close> is a new array that holds the same objects as \<^verbatim>\<open>configHosts\<close>, and the
  final \<^verbatim>\<open>forEach\<close> writes to these objects after the array has been built. The model
  keeps the objects in a store: an array is a list of addresses, and the result is read
  through the store as it is at the return.
\<close>

definition names_host :: "host \<Rightarrow> string \<Rightarrow> bool" where
  "names_host h hostname =
     (js_get (JObj h) ''hostname'' = JStr hostname \<or> js_get (JObj h) ''alias'' = JStr hostname)"

definition push_known_host ::
  "nat list \<Rightarrow> host list \<times> nat list \<Rightarrow> string \<Rightarrow> host list \<times> nat list" where
  "push_known_host configHosts st hostname =
     (case st of (store, allHosts) \<Rightarrow>
        if \<not> list_ex (\<lambda>r. names_host (store ! r) hostname) configHosts
        then (store @ [[(''hostname'', JStr hostname), (''source'', JStr ''known_hosts'')]],
              allHosts @ [length store])
        else (store, allHosts))"

definition mark_config_host :: "host list \<Rightarrow> nat \<Rightarrow> host list" where
  "mark_config_host store r = store[r := AList.update ''source'' (JStr ''ssh_config'') (store ! r)]"

definition merge_known_hosts :: "host list \<Rightarrow> string list \<Rightarrow> host list" where
  "merge_known_hosts configHostObjects knownHostnames =
     (let store0 = configHostObjects;
          configHosts = [0..<length configHostObjects];
          allHosts0 = configHosts;
          (store1, allHosts) = foldl (push_known_host configHosts) (store0, allHosts0) knownHostnames;
          store2 = foldl mark_config_host store1 configHosts
      in map (\<lambda>r. store2 ! r) allHosts)"

definition getAllKnownHosts :: "nat \<Rightarrow> fs \<Rightarrow> string \<Rightarrow> string \<Rightarrow> host list option" where
  "getAllKnownHosts depth env configPath knownHostsPath =
     (case processIncludeDirectives depth env configPath of
        None \<Rightarrow> None
      | Some configHosts \<Rightarrow>
          Some (merge_known_hosts configHosts (parseKnownHosts env knownHostsPath)))"

text \<open>An example file system: \<^verbatim>\<open>/A\<close> includes \<^verbatim>\<open>B\<close> and then declares a host.\<close>

definition config_A :: "line list" where
  "config_A = [Line ''Include'' (Single ''B'') [],
               Line ''Host'' (Single ''h1'')
                 [Line ''HostName'' (Single ''h1.example.com'') [],
                  Line ''Port'' (Single ''2222'') []]]"

definition config_B :: "line list" where
  "config_B = [Line ''Host'' (Single ''h2'') [Line ''HostName'' (Single ''h2.example.com'') []]]"

definition example_fs :: fs where
  "example_fs =
     \<lparr>existsSync = (\<lambda>p. p = ''/A'' \<or> p = ''/B'' \<or> p = ''/known_hosts''),
      readFile = (\<lambda>p. Inr p),
      parse = (\<lambda>content.
         if content = ''/A'' then Inr config_A
         else if content = ''/B'' then Inr config_B
         else Inl SyntaxError),
      homedir = ''/home/u'',
      dirname = (\<lambda>p. ''/''),
      resolve = (\<lambda>dir p. dir @ p),
      glob_sync = (\<lambda>p. Inr [])\<rparr>"


text \<open>
  The same file system with a known-hosts file that names the alias of one config host,
  the hostname of another, and a host that is in no configuration.
\<close>

definition registry_fs :: fs where
  "registry_fs =
     example_fs\<lparr>readFile := (\<lambda>p.
        if p = ''/known_hosts''
        then Inr (''h1 ssh-ed25519 AAAA'' @ [CHR 0x0A] @
                  ''h2.example.com ssh-ed25519 BBBB'' @ [CHR 0x0A] @
                  ''db9 ssh-ed25519 CCCC'')
        else Inr p)\<rparr>"

text \<open>
  Files on which the included-first order fails. \<^verbatim>\<open>/M\<close> has an \<^verbatim>\<open>Include\<close> line with
  two paths, which the parser delivers as an array. In \<^verbatim>\<open>/N\<close> the \<^verbatim>\<open>Include\<close> line comes
  after a \<^verbatim>\<open>Host\<close> line, so the parser delivers it inside the block of that host.
  \<^verbatim>\<open>/C\<close> includes itself.
\<close>

definition config_M :: "line list" where
  "config_M = [Line ''Include'' (Several [''B'', ''B2'']) [],
               Line ''Host'' (Single ''h1'') [Line ''HostName'' (Single ''h1.example.com'') []]]"

definition config_N :: "line list" where
  "config_N = [Line ''Host'' (Single ''h1'')
                 [Line ''HostName'' (Single ''h1.example.com'') [],
                  Line ''Include'' (Single ''B'') []]]"

definition config_C :: "line list" where
  "config_C = [Line ''Include'' (Single ''C'') []]"

definition slip_fs :: fs where
  "slip_fs =
     \<lparr>existsSync = (\<lambda>p. p = ''/M'' \<or> p = ''/N'' \<or> p = ''/B'' \<or> p = ''/C''),
      readFile = (\<lambda>p. Inr p),
      parse = (\<lambda>content.
         if content = ''/M'' then Inr config_M
         else if content = ''/N'' then Inr config_N
         else if content = ''/B'' then Inr config_B
         else if content = ''/C'' then Inr config_C
         else Inl SyntaxError),
      homedir = ''/home/u'',
      dirname = (\<lambda>p. ''/''),
      resolve = (\<lambda>dir p. dir @ p),
      glob_sync = (\<lambda>p. Inr [])\<rparr>"

text \<open>
  Notions for stating what \<^verbatim>\<open>parseKnownHosts\<close> computes: the first comma-delimited
  token of the text before the first space, and the lines that are kept.
\<close>

definition first_token :: "string \<Rightarrow> string" where
  "first_token row = takeWhile (\<lambda>x. x \<noteq> CHR '','') (takeWhile (\<lambda>x. x \<noteq> CHR '' '') row)"

definition kept_line :: "string \<Rightarrow> bool" where
  "kept_line row = (trim row \<noteq> [] \<and> \<not> starts_with ''#'' row)"

text \<open>The record appended for a name of the known-hosts file, and the tag on a config host.\<close>

definition known_host_record :: "string \<Rightarrow> host" where
  "known_host_record hostname = [(''hostname'', JStr hostname), (''source'', JStr ''known_hosts'')]"

definition tag_config_host :: "host \<Rightarrow> host" where
  "tag_config_host h = AList.update ''source'' (JStr ''ssh_config'') h"

section \<open>Properties of the executor\<close>

lemma runnerCount_eq:
  "runnerCount items limit =
     (case limit of
        Num q \<Rightarrow> min (nat (max 1 \<lfloor>q\<rfloor>)) (length items)
      | PosInf \<Rightarrow> length items
      | _ \<Rightarrow> min 1 (length items))"
proof (cases limit)
  case (Num q)
  have "min (max 1 (of_int \<lfloor>q\<rfloor>)) (of_nat (length items) :: rat)
        = of_int (min (max 1 \<lfloor>q\<rfloor>) (int (length items)))"
    by (simp add: of_int_min of_int_max)
  then have "nat \<lceil>min (max 1 (of_int \<lfloor>q\<rfloor>)) (of_nat (length items) :: rat)\<rceil>
        = nat (min (max 1 \<lfloor>q\<rfloor>) (int (length items)))"
    by (simp only: ceiling_of_int)
  also have "\<dots> = min (nat (max 1 \<lfloor>q\<rfloor>)) (length items)"
    by linarith
  finally show ?thesis using Num
    by (auto simp: runnerCount_def concurrency_of_def)
next
  case NaN
  have "nat \<lceil>min 1 (of_nat (length items) :: rat)\<rceil> = min 1 (length items)"
    by (cases items) (simp_all add: min_def)
  then show ?thesis using NaN by (simp add: runnerCount_def concurrency_of_def)
next
  case PosInf
  then show ?thesis by (simp add: runnerCount_def concurrency_of_def)
next
  case NegInf
  have "nat \<lceil>min 1 (of_nat (length items) :: rat)\<rceil> = min 1 (length items)"
    by (cases items) (simp_all add: min_def)
  then show ?thesis using NegInf by (simp add: runnerCount_def concurrency_of_def)
qed

lemma runnerCount_le: "runnerCount items limit \<le> length items"
  by (simp add: runnerCount_eq split: jsnum.split)

lemma runnerCount_pos: "items \<noteq> [] \<Longrightarrow> 1 \<le> runnerCount items limit"
  by (cases items) (auto simp: runnerCount_eq split: jsnum.split)

lemma spawn_iterate:
  "k \<le> length items \<Longrightarrow>
   ((spawn items worker) ^^ k)
     \<lparr>nextIndex = 0, results = replicate (length items) None, runners = [],
      invoked = [], issued = [], rejection = None\<rparr>
   = \<lparr>nextIndex = k, results = replicate (length items) None, runners = map Awaiting [0..<k],
      invoked = [0..<k], issued = concat (map (\<lambda>i. fst (worker (items ! i) i)) [0..<k]),
      rejection = None\<rparr>"
proof (induction k)
  case 0
  show ?case by simp
next
  case (Suc k)
  then show ?case by (simp add: spawn_def runner_turn_def Let_def)
qed

lemmas launch_eq = spawn_iterate [OF runnerCount_le, folded launch_def]

lemma pool_inv_launch:
  "pool_inv items f (launch items limit worker)"
proof -
  let ?k = "runnerCount items limit"
  have k: "?k \<le> length items" by (rule runnerCount_le)
  have pos: "?k < length items \<Longrightarrow> 0 < ?k"
    using runnerCount_pos [of items limit] by (cases items) auto
  show ?thesis
    unfolding pool_inv_def launch_eq using k pos
    by (auto simp: min_def)
qed

lemma settle_idle:
  "\<not> (j < length (runners s) \<and> (\<exists>c. runners s ! j = Awaiting c)) \<Longrightarrow> settle items worker s j = s"
  by (auto simp: settle_def split: runner.splits)

lemma settle_last:
  assumes "j < length (runners s)" "runners s ! j = Awaiting c"
    and "snd (worker (items ! c) c) = Resolved r" "length items \<le> nextIndex s"
  shows "settle items worker s j =
            s\<lparr>results := (results s)[c := Some r],
              nextIndex := nextIndex s + 1, runners := (runners s)[j := Returned]\<rparr>"
  using assms by (simp add: settle_def runner_turn_def Let_def)

lemma settle_next:
  assumes "j < length (runners s)" "runners s ! j = Awaiting c"
    and "snd (worker (items ! c) c) = Resolved r" "nextIndex s < length items"
  shows "settle items worker s j =
            s\<lparr>results := (results s)[c := Some r],
              nextIndex := nextIndex s + 1, 
              invoked := invoked s @ [nextIndex s],
              issued := issued s @ fst (worker (items ! nextIndex s) (nextIndex s)),
              runners := (runners s)[j := Awaiting (nextIndex s)]\<rparr>"
  using assms by (simp add: settle_def runner_turn_def Let_def)

lemma pool_inv_settle:
  assumes inv: "pool_inv items f s"
    and w: "\<And>x i. snd (worker x i) = Resolved (f x i)"
  shows "pool_inv items f (settle items worker s j)"
proof (cases "j < length (runners s) \<and> (\<exists>c. runners s ! j = Awaiting c)")
  case False
  then show ?thesis using inv by (simp add: settle_idle)
next
  case True
  then obtain c where j: "j < length (runners s)" and aw: "runners s ! j = Awaiting c" by blast
  from inv have len: "length (results s) = length items"
    and rej: "rejection s = None"
    and nofail: "\<And>k. k < length (runners s) \<Longrightarrow> runners s ! k \<noteq> Failed"
    and inv_log: "invoked s = [0..<min (nextIndex s) (length items)]"
    and bound: "\<And>k d. k < length (runners s) \<Longrightarrow> runners s ! k = Awaiting d \<Longrightarrow> d < length items"
    and cover: "\<And>i. i < min (nextIndex s) (length items) \<Longrightarrow>
        results s ! i = Some (f (items ! i) i) \<or> (\<exists>k < length (runners s). runners s ! k = Awaiting i)"
    by (auto simp: pool_inv_def)
  have c: "c < length items" using bound [OF j aw] .
  show ?thesis
  proof (cases "length items \<le> nextIndex s")
    case last: True
    let ?s' = "s\<lparr>results := (results s)[c := Some (f (items ! c) c)],
              nextIndex := nextIndex s + 1, runners := (runners s)[j := Returned]\<rparr>"
    have eq: "settle items worker s j = ?s'"
      by (rule settle_last [OF j aw w last])
    have cover': "results ?s' ! i = Some (f (items ! i) i) \<or>
        (\<exists>k < length (runners ?s'). runners ?s' ! k = Awaiting i)"
      if i: "i < min (nextIndex ?s') (length items)" for i
    proof (cases "i = c")
      case True
      then show ?thesis using c len by simp
    next
      case False
      from i last have "i < min (nextIndex s) (length items)" by simp
      from cover [OF this] show ?thesis
      proof
        assume "results s ! i = Some (f (items ! i) i)"
        then show ?thesis using False by simp
      next
        assume "\<exists>k < length (runners s). runners s ! k = Awaiting i"
        then obtain k where k: "k < length (runners s)" "runners s ! k = Awaiting i" by blast
        with aw False have "k \<noteq> j" by auto
        with k have "k < length (runners ?s') \<and> runners ?s' ! k = Awaiting i" by simp
        then show ?thesis by blast
      qed
    qed
    show ?thesis unfolding eq pool_inv_def
    proof (intro conjI)
      show "\<forall>i<min (nextIndex ?s') (length items).
       results ?s' ! i = Some (f (items ! i) i) \<or>
       (\<exists>j<length (runners ?s'). runners ?s' ! j = Awaiting i)"
        using cover' by blast
    qed (use j len rej nofail inv_log bound last in \<open>auto simp: nth_list_update split: if_splits\<close>)
  next
    case False
    then have more: "nextIndex s < length items" by simp
    let ?s' = "s\<lparr>results := (results s)[c := Some (f (items ! c) c)],
              nextIndex := nextIndex s + 1, 
              invoked := invoked s @ [nextIndex s],
              issued := issued s @ fst (worker (items ! nextIndex s) (nextIndex s)),
              runners := (runners s)[j := Awaiting (nextIndex s)]\<rparr>"
    have eq: "settle items worker s j = ?s'"
      by (rule settle_next [OF j aw w more])
    have cover': "results ?s' ! i = Some (f (items ! i) i) \<or>
        (\<exists>k < length (runners ?s'). runners ?s' ! k = Awaiting i)"
      if i: "i < min (nextIndex ?s') (length items)" for i
    proof (cases "i = c")
      case True
      then show ?thesis using c len by simp
    next
      case ic: False
      show ?thesis
      proof (cases "i = nextIndex s")
        case True
        then have "j < length (runners ?s') \<and> runners ?s' ! j = Awaiting i" using j by simp
        then show ?thesis by blast
      next
        case False
        with i more have "i < min (nextIndex s) (length items)" by simp
        from cover [OF this] show ?thesis
        proof
          assume "results s ! i = Some (f (items ! i) i)"
          then show ?thesis using ic by simp
        next
          assume "\<exists>k < length (runners s). runners s ! k = Awaiting i"
          then obtain k where k: "k < length (runners s)" "runners s ! k = Awaiting i" by blast
          with aw ic have "k \<noteq> j" by auto
          with k have "k < length (runners ?s') \<and> runners ?s' ! k = Awaiting i" by simp
          then show ?thesis by blast
        qed
      qed
    qed
    have log': "invoked ?s' = [0..<min (nextIndex ?s') (length items)]"
      using inv_log more by (simp add: min_def)
    show ?thesis unfolding eq pool_inv_def
    proof (intro conjI)
      show "\<forall>i<min (nextIndex ?s') (length items).
       results ?s' ! i = Some (f (items ! i) i) \<or>
       (\<exists>j<length (runners ?s'). runners ?s' ! j = Awaiting i)"
        using cover' by blast
      show "invoked ?s' = [0..<min (nextIndex ?s') (length items)]" by (rule log')
      show "nextIndex ?s' < length items \<longrightarrow>
        (\<exists>j<length (runners ?s'). \<exists>c. runners ?s' ! j = Awaiting c)"
      proof
        have "j < length (runners ?s') \<and> runners ?s' ! j = Awaiting (nextIndex s)"
          using j by simp
        then show "\<exists>j<length (runners ?s'). \<exists>c. runners ?s' ! j = Awaiting c" by blast
      qed
    qed (use j len rej nofail bound more in \<open>auto simp: nth_list_update split: if_splits\<close>)
  qed
qed

lemma pool_inv_run:
  assumes w: "\<And>x i. snd (worker x i) = Resolved (f x i)"
  shows "pool_inv items f (run_pool items limit worker sched)"
  unfolding run_pool_def
proof (induction sched rule: rev_induct)
  case Nil
  show ?case by (simp add: pool_inv_launch)
next
  case (snoc j sched)
  then show ?case by (simp add: pool_inv_settle [OF _ w])
qed

lemma pool_inv_finished:
  assumes inv: "pool_inv items f s" and fin: "settlement s = Some out"
  shows "out = Inr (map (\<lambda>i. Some (f (items ! i) i)) [0..<length items]) \<and> invoked s = [0..<length items]"
proof -
  from inv have rej: "rejection s = None" by (simp add: pool_inv_def)
  from fin rej have ret: "list_all (\<lambda>r. r = Returned) (runners s)" and out: "out = Inr (results s)"
    by (auto simp: settlement_def split: if_splits)
  have noaw: "\<not> (\<exists>j<length (runners s). runners s ! j = Awaiting c)" for c
    using ret by (auto simp: list_all_length)
  from inv noaw have n: "length items \<le> nextIndex s"
    unfolding pool_inv_def by (metis not_le)
  from inv n noaw have "\<forall>i < length items. results s ! i = Some (f (items ! i) i)"
    unfolding pool_inv_def by (metis min.absorb2)
  moreover from inv have "length (results s) = length items" by (simp add: pool_inv_def)
  ultimately have "results s = map (\<lambda>i. Some (f (items ! i) i)) [0..<length items]"
    by (intro nth_equalityI) simp_all
  moreover from inv n have "invoked s = [0..<length items]" by (simp add: pool_inv_def min_def)
  ultimately show ?thesis using out by simp
qed


lemma filter_update_drop:
  assumes "j < length xs" "P (xs ! j)" "\<not> P y"
  shows "Suc (length (filter P (xs[j := y]))) = length (filter P xs)"
proof -
  have "xs = take j xs @ xs ! j # drop (Suc j) xs"
    using assms(1) by (rule id_take_nth_drop)
  then have "length (filter P xs) = length (filter P (take j xs @ xs ! j # drop (Suc j) xs))"
    by simp
  moreover have "xs[j := y] = take j xs @ y # drop (Suc j) xs"
    using assms(1) by (rule upd_conv_take_nth_drop)
  ultimately show ?thesis using assms(2,3) by simp
qed

lemma filter_update_keep:
  assumes "j < length xs" "P (xs ! j)" "P y"
  shows "length (filter P (xs[j := y])) = length (filter P xs)"
proof -
  have "xs = take j xs @ xs ! j # drop (Suc j) xs"
    using assms(1) by (rule id_take_nth_drop)
  then have "length (filter P xs) = length (filter P (take j xs @ xs ! j # drop (Suc j) xs))"
    by simp
  moreover have "xs[j := y] = take j xs @ y # drop (Suc j) xs"
    using assms(1) by (rule upd_conv_take_nth_drop)
  ultimately show ?thesis using assms(2,3) by simp
qed

lemma pending_settle:
  assumes j: "j < length (runners s)" and aw: "runners s ! j = Awaiting c"
    and w: "snd (worker (items ! c) c) = Resolved r"
  shows "Suc (pending items (settle items worker s j)) = pending items s"
proof (cases "length items \<le> nextIndex s")
  case True
  have "is_awaiting (runners s ! j)" using aw by simp
  from filter_update_drop [of j "runners s" is_awaiting Returned, OF j this]
  show ?thesis using True j aw w by (simp add: settle_def runner_turn_def Let_def pending_def)
next
  case False
  then have more: "nextIndex s < length items" by simp
  have "is_awaiting (runners s ! j)" using aw by simp
  from filter_update_keep [of j "runners s" is_awaiting "Awaiting (nextIndex s)", OF j this]
  show ?thesis using more j aw w by (simp add: settle_def runner_turn_def Let_def pending_def)
qed

lemma pool_settles:
  assumes w: "\<And>x i. snd (worker x i) = Resolved (f x i)"
  shows "pool_inv items f s \<Longrightarrow>
    \<exists>more. settlement (foldl (settle items worker) s more) \<noteq> None"
proof (induction "pending items s" arbitrary: s)
  case 0
  then have "filter is_awaiting (runners s) = []" by (simp add: pending_def)
  then have na: "\<And>r. r \<in> set (runners s) \<Longrightarrow> \<not> is_awaiting r"
    by (simp add: filter_empty_conv)
  have "r = Returned" if r: "r \<in> set (runners s)" for r
  proof (cases r)
    case (Awaiting c)
    with na [OF r] show ?thesis by simp
  next
    case Failed
    with r "0.prems" show ?thesis by (auto simp: pool_inv_def in_set_conv_nth)
  qed simp
  then have "list_all (\<lambda>r. r = Returned) (runners s)" by (simp add: list_all_iff)
  moreover from "0.prems" have "rejection s = None" by (simp add: pool_inv_def)
  ultimately have "settlement (foldl (settle items worker) s []) \<noteq> None"
    by (simp add: settlement_def)
  then show ?case by blast
next
  case (Suc m)
  show ?case
  proof (cases "\<exists>j < length (runners s). \<exists>c. runners s ! j = Awaiting c")
    case False
    have "r = Returned" if r: "r \<in> set (runners s)" for r
    proof (cases r)
      case (Awaiting c)
      with r False show ?thesis by (auto simp: in_set_conv_nth)
    next
      case Failed
      with r Suc.prems show ?thesis by (auto simp: pool_inv_def in_set_conv_nth)
    qed simp
    then have "list_all (\<lambda>r. r = Returned) (runners s)" by (simp add: list_all_iff)
    moreover from Suc.prems have "rejection s = None" by (simp add: pool_inv_def)
    ultimately have "settlement (foldl (settle items worker) s []) \<noteq> None"
      by (simp add: settlement_def)
    then show ?thesis by blast
  next
    case True
    then obtain j c where j: "j < length (runners s)" and aw: "runners s ! j = Awaiting c"
      by blast
    let ?s' = "settle items worker s j"
    have "Suc (pending items ?s') = pending items s"
      by (rule pending_settle [OF j aw w])
    with Suc.hyps(2) have m: "m = pending items ?s'" by simp
    have "pool_inv items f ?s'" by (rule pool_inv_settle [OF Suc.prems w])
    from Suc.hyps(1) [OF m this] obtain more
      where "settlement (foldl (settle items worker) ?s' more) \<noteq> None" by blast
    then have "settlement (foldl (settle items worker) s (j # more)) \<noteq> None" by simp
    then show ?thesis by blast
  qed
qed

lemma issued_settle:
  assumes "issued s = concat (map (\<lambda>i. fst (worker (items ! i) i)) (invoked s))"
  shows "issued (settle items worker s j)
         = concat (map (\<lambda>i. fst (worker (items ! i) i)) (invoked (settle items worker s j)))"
  using assms
  by (simp add: settle_def runner_turn_def Let_def split: runner.split settled.split)

lemma issued_run_pool:
  "issued (run_pool items limit worker sched)
   = concat (map (\<lambda>i. fst (worker (items ! i) i)) (invoked (run_pool items limit worker sched)))"
  unfolding run_pool_def
proof (induction sched rule: rev_induct)
  case Nil
  show ?case by (simp add: launch_eq)
next
  case (snoc j sched)
  then show ?case by (simp add: issued_settle)
qed

text \<open>
  Claim C1. For every item list, every limit and every worker that yields a result for
  each item, under every order in which the worker promises settle: when
  \<^verbatim>\<open>runWithConcurrency\<close> returns, it returns a result array of the length of
  \<open>items\<close> whose slot \<open>i\<close> holds the worker's result for \<open>items[i]\<close>, and the worker has
  been called exactly once for each index; at no time has it been called twice for an
  index; and the call does return: every partial schedule extends to one that returns.
\<close>

theorem runWithConcurrency_results_in_item_order:
  fixes items :: "'a list" and limit :: jsnum
    and f :: "'a \<Rightarrow> nat \<Rightarrow> 'r" and fx :: "'a \<Rightarrow> nat \<Rightarrow> 'c list"
  defines "worker \<equiv> (resolving fx f :: ('a, 'c, 'e, 'r) worker)"
  shows "(\<forall>sched out. runWithConcurrency items limit worker sched = Some out \<longrightarrow>
            out = Inr (map (\<lambda>i. Some (f (items ! i) i)) [0..<length items]) \<and>
            worker_invocations items limit worker sched = [0..<length items])
       \<and> (\<forall>sched. distinct (worker_invocations items limit worker sched))
       \<and> (\<forall>sched. \<exists>more. runWithConcurrency items limit worker (sched @ more) \<noteq> None)"
proof (intro conjI allI impI)
  have w: "\<And>x i. snd (worker x i) = Resolved (f x i)" by (simp add: worker_def resolving_def)
  note inv = pool_inv_run [of worker f items limit, OF w]
  fix sched
  show "distinct (worker_invocations items limit worker sched)"
    using inv [of sched] by (simp add: worker_invocations_def pool_inv_def)
  from pool_settles [of worker f items, OF w inv [of sched]]
  show "\<exists>more. runWithConcurrency items limit worker (sched @ more) \<noteq> None"
    by (simp add: runWithConcurrency_def run_pool_def)
  fix out
  assume "runWithConcurrency items limit worker sched = Some out"
  then have "settlement (run_pool items limit worker sched) = Some out"
    by (simp add: runWithConcurrency_def)
  from pool_inv_finished [OF inv this]
  show "out = Inr (map (\<lambda>i. Some (f (items ! i) i)) [0..<length items])"
    and "worker_invocations items limit worker sched = [0..<length items]"
    by (simp_all add: worker_invocations_def)
qed

theorem runWithConcurrency_results_in_item_order_witness:
  "runWithConcurrency [''a'', ''b'', ''c'', ''d'', ''e''] (Num 2)
      (resolving (\<lambda>x i. [x]) (\<lambda>x i. x @ ''!'') :: (string, string, unit, string) worker) [1, 1, 1, 1, 0]
     = Some (Inr [Some ''a!'', Some ''b!'', Some ''c!'', Some ''d!'', Some ''e!''])
   \<and> worker_invocations [''a'', ''b'', ''c'', ''d'', ''e''] (Num 2)
      (resolving (\<lambda>x i. [x]) (\<lambda>x i. x @ ''!'') :: (string, string, unit, string) worker) [1, 1, 1, 1, 0]
     = [0, 1, 2, 3, 4]"
proof -
  let ?w = "resolving (\<lambda>x i. [x]) (\<lambda>x i. x @ ''!'') :: (string, string, unit, string) worker"
  have run: "runWithConcurrency [''a'', ''b'', ''c'', ''d'', ''e''] (Num 2) ?w [1, 1, 1, 1, 0]
     = Some (Inr [Some ''a!'', Some ''b!'', Some ''c!'', Some ''d!'', Some ''e!''])"
    by code_simp
  from runWithConcurrency_results_in_item_order
    [where items = "[''a'', ''b'', ''c'', ''d'', ''e'']" and limit = "Num 2"
       and fx = "\<lambda>x i. [x]" and f = "\<lambda>x i. x @ ''!''", where ?'e = unit]
  have "worker_invocations [''a'', ''b'', ''c'', ''d'', ''e''] (Num 2) ?w [1, 1, 1, 1, 0]
     = [0..<length [''a'', ''b'', ''c'', ''d'', ''e'']]"
    using run by blast
  then show ?thesis using run by (simp add: upt_rec)
qed

subsection \<open>Limits that are not positive integers\<close>

lemma length_runners_settle: "length (runners (settle items worker s j)) = length (runners s)"
  by (simp add: settle_def runner_turn_def Let_def split: runner.split settled.split)

lemma length_runners_run_pool:
  "length (runners (run_pool items limit worker sched)) = runnerCount items limit"
  unfolding run_pool_def
proof (induction sched rule: rev_induct)
  case Nil
  show ?case by (simp add: launch_eq)
next
  case (snoc j sched)
  then show ?case by (simp add: length_runners_settle)
qed

lemma runnerCount_clamped:
  "non_positive_or_nan limit \<Longrightarrow> runnerCount items limit = min 1 (length items)"
  by (cases limit) (simp_all add: runnerCount_eq max_def)

lemma runnerCount_one: "runnerCount items (Num 1) = min 1 (length items)"
  by (simp add: runnerCount_eq)

text \<open>
  Claim C7, as the code has it. For a limit that is zero, negative, NaN or
  \<^verbatim>\<open>-Infinity\<close>, \<^verbatim>\<open>runWithConcurrency\<close> behaves as with limit 1: the whole run is
  the same under every schedule, and at most one worker is active at any time. A limit of
  \<^verbatim>\<open>+Infinity\<close> is not replaced: one runner is started per item.
\<close>

theorem runWithConcurrency_clamps_limit:
  "(non_positive_or_nan limit \<longrightarrow>
      run_pool items limit worker sched = run_pool items (Num 1) worker sched \<and>
      runWithConcurrency items limit worker sched = runWithConcurrency items (Num 1) worker sched \<and>
      active_workers items limit worker sched \<le> 1)
   \<and> runnerCount items PosInf = length items"
proof (intro conjI impI)
  assume np: "non_positive_or_nan limit"
  have "launch items limit worker = launch items (Num 1) worker"
    by (simp add: launch_def runnerCount_clamped [OF np] runnerCount_one)
  then show eq: "run_pool items limit worker sched = run_pool items (Num 1) worker sched"
    by (simp add: run_pool_def)
  then show "runWithConcurrency items limit worker sched = runWithConcurrency items (Num 1) worker sched"
    by (simp add: runWithConcurrency_def)
  have "length (filter is_awaiting (runners (run_pool items limit worker sched)))
        \<le> length (runners (run_pool items limit worker sched))"
    by (rule length_filter_le)
  also have "\<dots> \<le> 1"
    by (simp add: length_runners_run_pool runnerCount_clamped [OF np])
  finally show "active_workers items limit worker sched \<le> 1"
    by (simp add: active_workers_def)
next
  show "runnerCount items PosInf = length items" by (simp add: runnerCount_eq)
qed

theorem runWithConcurrency_clamps_limit_witness:
  "non_positive_or_nan (Num (- 3))
   \<and> runWithConcurrency [''a'', ''b'', ''c''] (Num (- 3))
        (resolving (\<lambda>x i. [x]) (\<lambda>x i. x @ ''!'') :: (string, string, unit, string) worker) [0, 0, 0]
      = runWithConcurrency [''a'', ''b'', ''c''] (Num 1)
        (resolving (\<lambda>x i. [x]) (\<lambda>x i. x @ ''!'') :: (string, string, unit, string) worker) [0, 0, 0]
   \<and> active_workers [''a'', ''b'', ''c''] (Num (- 3))
        (resolving (\<lambda>x i. [x]) (\<lambda>x i. x @ ''!'') :: (string, string, unit, string) worker) [0, 0, 0] \<le> 1"
  using runWithConcurrency_clamps_limit
    [of "Num (- 3)" "[''a'', ''b'', ''c'']"
        "resolving (\<lambda>x i. [x]) (\<lambda>x i. x @ ''!'') :: (string, string, unit, string) worker" "[0, 0, 0]"]
  by simp

theorem runWithConcurrency_infinite_limit_counterexample:
  "active_workers [''a'', ''b'', ''c''] PosInf
        (resolving (\<lambda>x i. [x]) (\<lambda>x i. x @ ''!'') :: (string, string, unit, string) worker) [] = 3
   \<and> active_workers [''a'', ''b'', ''c''] (Num 1)
        (resolving (\<lambda>x i. [x]) (\<lambda>x i. x @ ''!'') :: (string, string, unit, string) worker) [] = 1"
  by code_simp

section \<open>Properties of uniqueStrings and runBatchCommand\<close>

lemma first_seen_Nil [simp]: "first_seen [] = []"
  by (simp add: first_seen_def)

lemma first_seen_Cons: "first_seen (x # xs) = x # first_seen (filter (\<lambda>y. y \<noteq> x) xs)"
proof -
  have "remdups (zs @ [x]) = remdups (filter (\<lambda>y. y \<noteq> x) zs) @ [x]" for zs
    by (induction zs) auto
  then show ?thesis by (simp add: first_seen_def rev_filter)
qed

lemma first_seen_empty_iff: "first_seen xs = [] \<longleftrightarrow> xs = []"
  by (simp add: first_seen_def)

lemma distinct_first_seen: "distinct (first_seen xs)"
  by (simp add: first_seen_def)

lemma set_first_seen: "set (first_seen xs) = set xs"
  by (simp add: first_seen_def)

lemma trimmed_names_simps:
  "trimmed_names [] = []"
  "trimmed_names (JStr v # vs) = (if trim v = [] then trimmed_names vs else trim v # trimmed_names vs)"
  "trimmed_names (JUndefined # vs) = trimmed_names vs"
  "trimmed_names (JNull # vs) = trimmed_names vs"
  "trimmed_names (JBool b # vs) = trimmed_names vs"
  "trimmed_names (JNum n # vs) = trimmed_names vs"
  "trimmed_names (JArr a # vs) = trimmed_names vs"
  "trimmed_names (JObj ps # vs) = trimmed_names vs"
  by (simp_all add: trimmed_names_def)

lemma uniqueStrings_loop_eq:
  "uniqueStrings_loop vs seen out
     = out @ first_seen (filter (\<lambda>s. s \<notin> seen) (trimmed_names vs))"
proof (induction vs seen out rule: uniqueStrings_loop.induct)
  case (1 seen out)
  show ?case by (simp add: trimmed_names_simps)
next
  case (2 v vs seen out)
  have flt: "filter (\<lambda>y. y \<noteq> trim v) (filter (\<lambda>s. s \<notin> seen) xs)
        = filter (\<lambda>s. s \<notin> insert (trim v) seen) xs" for xs
    by (induction xs) auto
  have flt2: "filter (\<lambda>x. x \<notin> seen \<and> x \<noteq> trim v) xs
        = filter (\<lambda>s. s \<noteq> trim v \<and> s \<notin> seen) xs" for xs
    by (rule filter_cong) auto
  show ?case
  proof (cases "trim v = [] \<or> trim v \<in> seen")
    case True
    with 2 show ?thesis by (auto simp: trimmed_names_simps)
  next
    case False
    with 2 show ?thesis
      by (simp add: trimmed_names_simps first_seen_Cons flt flt2 Let_def)
  qed
qed (simp_all add: trimmed_names_simps)

lemma uniqueStrings_eq:
  "iterate values = Inr vs \<Longrightarrow> uniqueStrings values = Inr (first_seen (trimmed_names vs))"
  by (simp add: uniqueStrings_def uniqueStrings_loop_eq)

lemma trimmed_names_empty:
  "spec_host_list vs = [] \<Longrightarrow> trimmed_names vs = []"
  by (simp add: spec_host_list_def trimmed_names_def first_seen_empty_iff filter_empty_conv)


lemma batch_worker_resolves:
  "snd (batch_worker env cmd h i)
     = Resolved (case snd (batch_worker env cmd h i) of Resolved r \<Rightarrow> r | Rejected e \<Rightarrow> JUndefined)"
  by (simp add: batch_worker_def runRemoteCommand_def Let_def)

lemma batch_worker_calls: "fst (batch_worker env cmd h i) = [ssh_call h cmd]"
  by (simp add: batch_worker_def runRemoteCommand_def Let_def ssh_call_def)

lemma batch_worker_host:
  "js_get (case snd (batch_worker env cmd h i) of Resolved r \<Rightarrow> r | Rejected e \<Rightarrow> JUndefined) ''host''
     = JStr h"
  by (simp add: batch_worker_def runRemoteCommand_def Let_def spread_def js_get_def
      split: exec_outcome.split)

lemma batch_pool_finished:
  assumes "settlement (run_pool hostList limit (batch_worker env cmd) sched) = Some out"
  shows "\<exists>rs. out = Inr (map Some rs) \<and> length rs = length hostList
            \<and> map (\<lambda>r. js_get r ''host'') rs = map JStr hostList
            \<and> issued (run_pool hostList limit (batch_worker env cmd) sched)
                = map (\<lambda>h. ssh_call h cmd) hostList"
proof -
  let ?w = "batch_worker env cmd"
  let ?f = "\<lambda>h i. case snd (?w h i) of Resolved r \<Rightarrow> r | Rejected e \<Rightarrow> JUndefined"
  let ?rs = "map (\<lambda>i. ?f (hostList ! i) i) [0..<length hostList]"
  have w: "\<And>x i. snd (?w x i) = Resolved (?f x i)" by (rule batch_worker_resolves)
  have inv: "pool_inv hostList ?f (run_pool hostList limit ?w sched)"
    by (rule pool_inv_run [of ?w ?f, OF w])
  from pool_inv_finished [OF inv assms]
  have out: "out = Inr (map (\<lambda>i. Some (?f (hostList ! i) i)) [0..<length hostList])"
    and log: "invoked (run_pool hostList limit ?w sched) = [0..<length hostList]"
    by simp_all
  have "out = Inr (map Some ?rs)" using out by (simp add: comp_def)
  moreover have "length ?rs = length hostList" by simp
  moreover have "map (\<lambda>r. js_get r ''host'') ?rs = map JStr hostList"
    by (rule nth_equalityI) (simp_all add: batch_worker_host)
  moreover have "issued (run_pool hostList limit ?w sched) = map (\<lambda>h. ssh_call h cmd) hostList"
    unfolding issued_run_pool log
    by (rule nth_equalityI) (simp_all add: batch_worker_calls)
  ultimately show ?thesis by blast
qed

text \<open>
  Claim C6. When the entries of \<^verbatim>\<open>hosts\<close> (absent, or a sequence), after dropping the
  entries that are not strings or are blank and removing repetitions, form the empty
  list, \<^verbatim>\<open>runBatchCommand\<close> returns
  \<^verbatim>\<open>{results: [], success: false, message: "No hosts provided"}\<close> at once: no external call
  is issued and the executor is not invoked. Likewise a command that is not a non-blank
  string gives an immediate failure object with empty results, with no external call and
  no invocation of the executor.
\<close>

theorem runBatchCommand_rejects_misuse:
  assumes it: "iterate (js_or hosts (JArr [])) = Inr vs"
  shows "(spec_host_list vs = [] \<longrightarrow>
            runBatchCommand env sched hosts command options
              = \<lparr>outcome = Some (Inr (JObj [(''results'', JArr []), (''success'', JBool False),
                                             (''message'', JStr ''No hosts provided'')])),
                 calls = [], executor_runs = []\<rparr>)
       \<and> (\<not> nonblank_string command \<longrightarrow>
            (\<exists>msg. runBatchCommand env sched hosts command options
              = \<lparr>outcome = Some (Inr (JObj [(''results'', JArr []), (''success'', JBool False),
                                             (''message'', JStr msg)])),
                 calls = [], executor_runs = []\<rparr>))"
proof (intro conjI impI)
  assume "spec_host_list vs = []"
  then have "uniqueStrings (js_or hosts (JArr [])) = Inr []"
    using uniqueStrings_eq [OF it] by (simp add: trimmed_names_empty)
  then show "runBatchCommand env sched hosts command options
              = \<lparr>outcome = Some (Inr (JObj [(''results'', JArr []), (''success'', JBool False),
                                             (''message'', JStr ''No hosts provided'')])),
                 calls = [], executor_runs = []\<rparr>"
    by (simp add: runBatchCommand_def returned_def failure_def)
next
  assume blank: "\<not> nonblank_string command"
  have u: "uniqueStrings (js_or hosts (JArr [])) = Inr (first_seen (trimmed_names vs))"
    by (rule uniqueStrings_eq [OF it])
  show "\<exists>msg. runBatchCommand env sched hosts command options
              = \<lparr>outcome = Some (Inr (JObj [(''results'', JArr []), (''success'', JBool False),
                                             (''message'', JStr msg)])),
                 calls = [], executor_runs = []\<rparr>"
  proof (cases "first_seen (trimmed_names vs) = []")
    case True
    then show ?thesis using u by (simp add: runBatchCommand_def returned_def failure_def)
  next
    case False
    then show ?thesis using u blank
      by (cases command) (simp_all add: runBatchCommand_def returned_def failure_def)
  qed
qed

theorem runBatchCommand_rejects_misuse_witness:
  "iterate (js_or (JArr [JStr ''  '', JNum (Num 7), JNull]) (JArr []))
     = Inr [JStr ''  '', JNum (Num 7), JNull]
   \<and> spec_host_list [JStr ''  '', JNum (Num 7), JNull] = []
   \<and> \<not> nonblank_string (JStr '' '')
   \<and> runBatchCommand always_ok [] (JArr [JStr ''  '', JNum (Num 7), JNull]) (JStr '' '') JUndefined
       = \<lparr>outcome = Some (Inr (JObj [(''results'', JArr []), (''success'', JBool False),
                                      (''message'', JStr ''No hosts provided'')])),
          calls = [], executor_runs = []\<rparr>"
proof -
  have it: "iterate (js_or (JArr [JStr ''  '', JNum (Num 7), JNull]) (JArr []))
     = Inr [JStr ''  '', JNum (Num 7), JNull]"
    by (simp add: js_or_def)
  have e: "spec_host_list [JStr ''  '', JNum (Num 7), JNull] = []"
    by (simp add: spec_host_list_def trim_def is_ws_def)
  have b: "\<not> nonblank_string (JStr '' '')"
    by (simp add: trim_def is_ws_def)
  from runBatchCommand_rejects_misuse [OF it, of always_ok "[]" "JStr '' ''" JUndefined] e
  show ?thesis using it e b by simp
qed

text \<open>
  Claim C10. The host list of \<^verbatim>\<open>runBatchCommand\<close> is made of the trimmed string
  entries: the non-blank entries are trimmed first and repetitions are removed after
  that, so entries that are equal after trimming count once. When the fan-out has run
  and the call returns, the \<^verbatim>\<open>host\<close> fields of the per-host results are these trimmed
  strings, in order, and so are the hosts that were passed to \<^verbatim>\<open>ssh\<close>.
\<close>

theorem runBatchCommand_trims_hosts:
  assumes it: "iterate (js_or hosts (JArr [])) = Inr vs"
    and ret: "outcome (runBatchCommand env sched hosts command options) = Some (Inr res)"
    and fan: "executor_runs (runBatchCommand env sched hosts command options) \<noteq> []"
  shows "\<exists>rs cmd limit. command = JStr cmd
      \<and> executor_runs (runBatchCommand env sched hosts command options)
            = [(first_seen (trimmed_names vs), limit)]
      \<and> distinct (first_seen (trimmed_names vs))
      \<and> js_get res ''results'' = JArr rs
      \<and> map (\<lambda>r. js_get r ''host'') rs = map JStr (first_seen (trimmed_names vs))
      \<and> calls (runBatchCommand env sched hosts command options)
            = map (\<lambda>h. ssh_call h cmd) (first_seen (trimmed_names vs))"
proof -
  let ?hs = "first_seen (trimmed_names vs)"
  let ?opts = "default_options options"
  have u: "uniqueStrings (js_or hosts (JArr [])) = Inr ?hs"
    by (rule uniqueStrings_eq [OF it])
  from fan u have ne: "?hs \<noteq> []"
    by (auto simp: runBatchCommand_def returned_def)
  from fan u ne obtain cmd where cmd: "command = JStr cmd" and nb: "trim cmd \<noteq> []"
    by (cases command) (auto simp: runBatchCommand_def returned_def Let_def split: if_splits)
  from fan u ne cmd nb obtain c t where c: "property ?opts ''concurrency'' = Inr c"
    and t: "property ?opts ''timeoutMs'' = Inr t"
    by (auto simp: runBatchCommand_def returned_def thrown_def Let_def split: sum.splits)
  let ?pool = "run_pool ?hs (Num (finite_or c 5)) (batch_worker env cmd) sched"
  have run: "runBatchCommand env sched hosts command options
     = \<lparr>outcome = (case settlement ?pool of
                       None \<Rightarrow> None
                     | Some (Inl e) \<Rightarrow> Some (Inl e)
                     | Some (Inr rs) \<Rightarrow>
                         Some (Inr (JObj [(''results'', array_of rs),
                                          (''success'', JBool (every_code_zero rs))]))),
        calls = issued ?pool,
        executor_runs = [(?hs, Num (finite_or c 5))]\<rparr>"
    using u ne cmd nb c t by (simp add: runBatchCommand_def Let_def)
  from ret obtain out where out: "settlement ?pool = Some out"
    unfolding run by (cases "settlement ?pool") auto
  from batch_pool_finished [OF out] obtain rs
    where rs: "out = Inr (map Some rs)"
      and hosts: "map (\<lambda>r. js_get r ''host'') rs = map JStr ?hs"
      and iss: "issued ?pool = map (\<lambda>h. ssh_call h cmd) ?hs"
    by blast
  from ret out rs have "res = JObj [(''results'', array_of (map Some rs)),
                                   (''success'', JBool (every_code_zero (map Some rs)))]"
    unfolding run by simp
  then have "js_get res ''results'' = JArr rs"
    by (simp add: js_get_def array_of_def comp_def)
  with cmd hosts iss show ?thesis
    unfolding run by (auto simp: distinct_first_seen)
qed

theorem runBatchCommand_trims_hosts_witness:
  "iterate (js_or (JArr [JStr '' web1 '', JStr ''web1'', JStr ''db1  '']) (JArr []))
       = Inr [JStr '' web1 '', JStr ''web1'', JStr ''db1  '']
   \<and> outcome (runBatchCommand always_ok [0, 1] (JArr [JStr '' web1 '', JStr ''web1'', JStr ''db1  ''])
                  (JStr ''uptime'') JUndefined)
       = Some (Inr (JObj
                [(''results'',
                  JArr
                   [JObj
                     [(''host'', JStr ''web1''), (''stdout'', JStr ''ok''),
                      (''stderr'', JStr []), (''code'', JNum (Num 0))],
                    JObj
                     [(''host'', JStr ''db1''), (''stdout'', JStr ''ok''),
                      (''stderr'', JStr []), (''code'', JNum (Num 0))]]),
                 (''success'', JBool True)]))
   \<and> executor_runs (runBatchCommand always_ok [0, 1] (JArr [JStr '' web1 '', JStr ''web1'', JStr ''db1  ''])
                  (JStr ''uptime'') JUndefined) \<noteq> []
   \<and> calls (runBatchCommand always_ok [0, 1] (JArr [JStr '' web1 '', JStr ''web1'', JStr ''db1  ''])
                  (JStr ''uptime'') JUndefined)
       = [ssh_call ''web1'' ''uptime'', ssh_call ''db1'' ''uptime'']"
proof -
  let ?hosts = "JArr [JStr '' web1 '', JStr ''web1'', JStr ''db1  '']"
  let ?run = "runBatchCommand always_ok [0, 1] ?hosts (JStr ''uptime'') JUndefined"
  have it: "iterate (js_or ?hosts (JArr [])) = Inr [JStr '' web1 '', JStr ''web1'', JStr ''db1  '']"
    by (simp add: js_or_def)
  have tn: "first_seen (trimmed_names [JStr '' web1 '', JStr ''web1'', JStr ''db1  ''])
              = [''web1'', ''db1'']"
    by code_simp
  have ret: "outcome ?run = Some (Inr (JObj
                [(''results'',
                  JArr
                   [JObj
                     [(''host'', JStr ''web1''), (''stdout'', JStr ''ok''),
                      (''stderr'', JStr []), (''code'', JNum (Num 0))],
                    JObj
                     [(''host'', JStr ''db1''), (''stdout'', JStr ''ok''),
                      (''stderr'', JStr []), (''code'', JNum (Num 0))]]),
                 (''success'', JBool True)]))"
    by code_simp
  have fan: "executor_runs ?run \<noteq> []"
    by code_simp
  from runBatchCommand_trims_hosts [OF it ret fan]
  have "calls ?run = map (\<lambda>h. ssh_call h ''uptime'')
                       (first_seen (trimmed_names [JStr '' web1 '', JStr ''web1'', JStr ''db1  '']))"
    by auto
  then have "calls ?run = [ssh_call ''web1'' ''uptime'', ssh_call ''db1'' ''uptime'']"
    unfolding tn by simp
  with it ret fan show ?thesis by blast
qed

text \<open>
  Claim C3 does not hold of the code. \<^verbatim>\<open>runBatchCommand\<close> computes
  \<^verbatim>\<open>perHostTimeoutMs\<close> from \<^verbatim>\<open>options.timeoutMs\<close> and never uses it;
  \<^verbatim>\<open>runRemoteCommand\<close> has no timeout parameter and always passes \<^verbatim>\<open>timeout: 30000\<close>.
  With \<^verbatim>\<open>timeoutMs: 5000\<close> the call to \<^verbatim>\<open>ssh\<close> is still made with a timeout of 30000.
\<close>

theorem runBatchCommand_ignores_timeoutMs:
  "calls (runBatchCommand always_ok [0] (JArr [JStr ''web1'']) (JStr ''uptime'')
            (JObj [(''timeoutMs'', JNum (Num 5000))]))
   = [\<lparr>program = ''ssh'', args = [''web1'', ''uptime''], timeout = 30000,
       maxBuffer = Some 10485760\<rparr>]"
  by code_simp

section \<open>Properties of syncFile\<close>

text \<open>
  Claim C9, as the code has it. When \<^verbatim>\<open>localPath\<close> or \<^verbatim>\<open>remotePath\<close> is not a string
  or is the empty string (and \<^verbatim>\<open>hosts\<close> is absent or a sequence), \<^verbatim>\<open>syncFile\<close> returns
  a failure object with empty results and \<^verbatim>\<open>success: false\<close> at once: no copy or sync
  primitive is called and the executor is not invoked. The code does not trim the paths:
  a path that consists of white space only passes this check.
\<close>

theorem syncFile_rejects_missing_paths:
  assumes it: "iterate (js_or hosts (JArr [])) = Inr vs"
    and bad: "\<not> nonempty_string localPath \<or> \<not> nonempty_string remotePath"
  shows "\<exists>msg. syncFile env sched localPath remotePath hosts options
              = \<lparr>outcome = Some (Inr (JObj [(''results'', JArr []), (''success'', JBool False),
                                             (''message'', JStr msg)])),
                 calls = [], executor_runs = []\<rparr>"
proof -
  have u: "uniqueStrings (js_or hosts (JArr [])) = Inr (first_seen (trimmed_names vs))"
    by (rule uniqueStrings_eq [OF it])
  show ?thesis
  proof (cases "first_seen (trimmed_names vs) = []")
    case True
    then show ?thesis using u by (simp add: syncFile_def returned_def failure_def)
  next
    case ne: False
    show ?thesis
    proof (cases "nonempty_string localPath")
      case False
      then show ?thesis using u ne
        by (cases localPath) (simp_all add: syncFile_def returned_def failure_def)
    next
      case True
      then obtain lp where lp: "localPath = JStr lp" "lp \<noteq> []"
        by (cases localPath) simp_all
      from True bad have "\<not> nonempty_string remotePath" by simp
      then show ?thesis using u ne lp
        by (cases remotePath) (simp_all add: syncFile_def returned_def failure_def)
    qed
  qed
qed

theorem syncFile_rejects_missing_paths_witness:
  "iterate (js_or (JArr [JStr ''web1'']) (JArr [])) = Inr [JStr ''web1'']
   \<and> \<not> nonempty_string (JStr '''')
   \<and> (\<exists>msg. syncFile always_ok [0] (JStr '''') (JStr ''/tmp/x'') (JArr [JStr ''web1'']) JUndefined
              = \<lparr>outcome = Some (Inr (JObj [(''results'', JArr []), (''success'', JBool False),
                                             (''message'', JStr msg)])),
                 calls = [], executor_runs = []\<rparr>)"
proof -
  have it: "iterate (js_or (JArr [JStr ''web1'']) (JArr [])) = Inr [JStr ''web1'']"
    by (simp add: js_or_def)
  have bad: "\<not> nonempty_string (JStr '''') \<or> \<not> nonempty_string (JStr ''/tmp/x'')"
    by simp
  from syncFile_rejects_missing_paths [OF it bad, of always_ok "[0]" JUndefined]
  show ?thesis using it by simp
qed

theorem syncFile_blank_path_counterexample:
  "\<not> nonblank_string (JStr ''  '')
   \<and> syncFile always_ok [0] (JStr ''  '') (JStr ''/tmp/x'') (JArr [JStr ''web1'']) JUndefined
     = \<lparr>outcome = Some (Inr (JObj
            [(''results'',
              JArr [JObj [(''host'', JStr ''web1''), (''success'', JBool True),
                          (''stdout'', JStr ''ok''), (''stderr'', JStr [])]]),
             (''success'', JBool True), (''successCount'', JNum (Num 1)),
             (''failCount'', JNum (Num 0))])),
        calls = [\<lparr>program = ''scp'', args = [''-r'', ''  '', ''web1:/tmp/x''],
                  timeout = 120000, maxBuffer = None\<rparr>],
        executor_runs = [([''web1''], Num 5)]\<rparr>"
  by code_simp

section \<open>Properties of loadGroupsFile\<close>

lemma loadGroupsFile_not_an_object:
  "loadGroupsFile Unreadable = []"
  "loadGroupsFile Unparseable = []"
  "loadGroupsFile (Parsed JNull) = []"
  "loadGroupsFile (Parsed JUndefined) = []"
  "loadGroupsFile (Parsed (JBool b)) = []"
  "loadGroupsFile (Parsed (JNum n)) = []"
  "loadGroupsFile (Parsed (JStr s)) = []"
  by (simp_all add: loadGroupsFile_def)

text \<open>
  Claim C8 does not hold of the code where the top level of the file is an array. The
  guard \<^verbatim>\<open>parsed && typeof parsed === 'object'\<close> lets arrays through, and
  \<^verbatim>\<open>Object.entries\<close> of an array yields its indices as keys: the file \<^verbatim>\<open>[["web1"]]\<close>
  gives the map \<^verbatim>\<open>{"0": ["web1"]}\<close>, not the empty map.
\<close>

theorem loadGroupsFile_array_top_level:
  "loadGroupsFile (Parsed (JArr [JArr [JStr ''web1'']])) = [(''0'', JArr [JStr ''web1''])]"
proof -
  have "char_of (48 :: nat) = CHR ''0''" by code_simp
  then have "decimal 0 = ''0''" by (simp add: decimal.simps [of 0])
  moreover have "trim ''web1'' = ''web1''" by (simp add: trim_def is_ws_def)
  moreover have "obj_set ''0'' v [] = [(''0'', v)]" for v
    by (simp add: obj_set_def is_index_key_def is_digit_def digits_value_def)
  ultimately show ?thesis by (simp add: loadGroupsFile_def add_group_def)
qed

section \<open>Properties of parseKnownHosts\<close>

lemma split_on_nonempty: "split_on c s \<noteq> []"
  by (induction s) (auto split: list.split)

lemma hd_split_on: "hd (split_on c s) = takeWhile (\<lambda>x. x \<noteq> c) s"
  by (induction s) (auto split: list.split simp: split_on_nonempty)

lemma join_split_on: "join c (split_on c s) = s"
proof (induction s)
  case Nil
  show ?case by simp
next
  case (Cons x xs)
  obtain w ws where sp: "split_on c xs = w # ws"
    using split_on_nonempty [of c xs] by (cases "split_on c xs") auto
  with Cons show ?case by (cases ws) auto
qed

lemma split_on_pieces: "list_all (\<lambda>w. c \<notin> set w) (split_on c s)"
  by (induction s) (auto split: list.split)

lemma known_host_of_line_eq: "known_host_of_line row = first_token row"
  by (simp add: known_host_of_line_def first_token_def hd_split_on)

text \<open>
  Claim C4, as the code has it. \<^verbatim>\<open>parseKnownHosts\<close> cuts the content at the newlines;
  it skips the lines that are blank or start with \<^verbatim>\<open>#\<close>; each remaining line
  contributes, in file order, the first comma-delimited token of the text before its first
  space, unless that token is empty. Nothing is removed beyond that: a hostname that occurs
  on two lines occurs twice in the result.
\<close>

theorem parseKnownHosts_first_tokens:
  "known_hosts_of_content content
     = filter (\<lambda>h. h \<noteq> []) (map first_token (filter kept_line (split_on (CHR 0x0A) content)))
   \<and> join (CHR 0x0A) (split_on (CHR 0x0A) content) = content
   \<and> list_all (\<lambda>row. CHR 0x0A \<notin> set row) (split_on (CHR 0x0A) content)
   \<and> (existsSync env path \<and> readFile env path = Inr content
        \<longrightarrow> parseKnownHosts env path = known_hosts_of_content content)
   \<and> (\<not> existsSync env path \<longrightarrow> parseKnownHosts env path = [])"
proof -
  have "known_host_of_line = first_token"
    by (rule ext) (rule known_host_of_line_eq)
  moreover have "filter (\<lambda>row. trim row \<noteq> [] \<and> \<not> starts_with ''#'' row) rows
                 = filter kept_line rows" for rows
    by (rule filter_cong) (simp_all add: kept_line_def)
  ultimately have "known_hosts_of_content content
     = filter (\<lambda>h. h \<noteq> []) (map first_token (filter kept_line (split_on (CHR 0x0A) content)))"
    by (simp only: known_hosts_of_content_def)
  then show ?thesis
    by (simp add: join_split_on split_on_pieces parseKnownHosts_def)
qed

theorem parseKnownHosts_first_tokens_witness:
  "existsSync example_fs ''/known_hosts''
   \<and> readFile example_fs ''/known_hosts'' = Inr ''/known_hosts''
   \<and> parseKnownHosts example_fs ''/known_hosts'' = [''/known_hosts'']"
proof -
  have e: "existsSync example_fs ''/known_hosts''"
    and r: "readFile example_fs ''/known_hosts'' = Inr ''/known_hosts''"
    by (simp_all add: example_fs_def)
  have kc: "known_hosts_of_content ''/known_hosts'' = [''/known_hosts'']"
    by code_simp
  have "existsSync example_fs ''/known_hosts'' \<and> readFile example_fs ''/known_hosts'' = Inr ''/known_hosts''
        \<longrightarrow> parseKnownHosts example_fs ''/known_hosts'' = known_hosts_of_content ''/known_hosts''"
    using parseKnownHosts_first_tokens [of "''/known_hosts''" example_fs "''/known_hosts''"]
    by (elim conjE)
  with e r have "parseKnownHosts example_fs ''/known_hosts'' = known_hosts_of_content ''/known_hosts''"
    by (simp only: simp_thms)
  with e r kc show ?thesis by (simp only: simp_thms)
qed
theorem parseKnownHosts_duplicates_counterexample:
  "known_hosts_of_content (''web1,10.0.0.1 ssh-ed25519 AAAA'' @ [CHR 0x0A] @ ''web1 ssh-rsa BBBB'')
     = [''web1'', ''web1'']
   \<and> \<not> distinct (known_hosts_of_content
         (''web1,10.0.0.1 ssh-ed25519 AAAA'' @ [CHR 0x0A] @ ''web1 ssh-rsa BBBB''))
   \<and> known_hosts_of_content (''web2'' @ [CHR 0x09] @ ''ssh-rsa CCCC'')
     = [''web2'' @ [CHR 0x09] @ ''ssh-rsa'']"
  by code_simp

section \<open>Properties of getAllKnownHosts\<close>

lemma list_ex_store:
  "list_ex (\<lambda>r. P ((cs @ extra) ! r)) [0..<length cs] = list_ex P cs"
proof -
  have "list_ex (\<lambda>r. P ((cs @ extra) ! r)) [0..<length cs] \<longleftrightarrow> (\<exists>r<length cs. P (cs ! r))"
    by (auto simp: list_ex_iff nth_append)
  also have "\<dots> \<longleftrightarrow> (\<exists>h\<in>set cs. P h)"
    by (metis in_set_conv_nth)
  finally show ?thesis by (simp add: list_ex_iff)
qed

lemma push_known_hosts_fold:
  "foldl (push_known_host [0..<length cs]) (cs @ extra, refs) names
   = (cs @ extra @ map known_host_record
                     (filter (\<lambda>name. \<not> list_ex (\<lambda>h. names_host h name) cs) names),
      refs @ [length cs + length extra ..<
              length cs + length extra
                + length (filter (\<lambda>name. \<not> list_ex (\<lambda>h. names_host h name) cs) names)])"
proof (induction names arbitrary: extra refs)
  case Nil
  show ?case by simp
next
  case (Cons name names)
  show ?case
  proof (cases "list_ex (\<lambda>h. names_host h name) cs")
    case True
    then have "push_known_host [0..<length cs] (cs @ extra, refs) name = (cs @ extra, refs)"
      by (simp add: push_known_host_def list_ex_store [of "\<lambda>h. names_host h name" cs extra])
    with True Cons [of extra refs] show ?thesis by simp
  next
    case False
    then have "push_known_host [0..<length cs] (cs @ extra, refs) name
         = (cs @ (extra @ [known_host_record name]), refs @ [length cs + length extra])"
      by (simp add: push_known_host_def list_ex_store [of "\<lambda>h. names_host h name" cs extra]
          known_host_record_def)
    with False Cons [of "extra @ [known_host_record name]" "refs @ [length cs + length extra]"]
    show ?thesis by (simp del: upt_Suc add: upt_conv_Cons)
  qed
qed

lemma mark_config_hosts_fold:
  "k \<le> length cs \<Longrightarrow>
   foldl mark_config_host (cs @ extra) [0..<k]
   = map tag_config_host (take k cs) @ drop k cs @ extra"
proof (induction k)
  case 0
  show ?case by simp
next
  case (Suc k)
  then have k: "k < length cs" by simp
  let ?store = "map tag_config_host (take k cs) @ drop k cs @ extra"
  have at: "?store ! k = cs ! k"
    using k by (simp add: nth_append)
  have "mark_config_host ?store k
        = map tag_config_host (take k cs) @ (drop k cs @ extra)[0 := tag_config_host (cs ! k)]"
    unfolding mark_config_host_def at using k
    by (simp add: list_update_append tag_config_host_def)
  also have "(drop k cs @ extra)[0 := tag_config_host (cs ! k)]
        = tag_config_host (cs ! k) # drop (Suc k) cs @ extra"
    using k by (simp add: Cons_nth_drop_Suc [symmetric])
  also have "map tag_config_host (take k cs) @ tag_config_host (cs ! k) # drop (Suc k) cs @ extra
        = map tag_config_host (take (Suc k) cs) @ drop (Suc k) cs @ extra"
    using k by (simp add: take_Suc_conv_app_nth)
  finally show ?case using Suc by simp
qed

lemma merge_known_hosts_eq:
  "merge_known_hosts configHosts names
     = map tag_config_host configHosts
       @ map known_host_record
           (filter (\<lambda>name. \<not> list_ex (\<lambda>h. names_host h name) configHosts) names)"
proof -
  let ?new = "filter (\<lambda>name. \<not> list_ex (\<lambda>h. names_host h name) configHosts) names"
  let ?n = "length configHosts"
  have push: "foldl (push_known_host [0..<?n]) (configHosts, [0..<?n]) names
      = (configHosts @ map known_host_record ?new, [0..<?n + length ?new])"
    using push_known_hosts_fold [of configHosts "[]" "[0..<?n]" names]
    by (simp add: upt_add_eq_append [symmetric])
  have mark: "foldl mark_config_host (configHosts @ map known_host_record ?new) [0..<?n]
      = map tag_config_host configHosts @ map known_host_record ?new"
    using mark_config_hosts_fold [of ?n configHosts "map known_host_record ?new"] by simp
  let ?store = "map tag_config_host configHosts @ map known_host_record ?new"
  have "length ?store = ?n + length ?new" by simp
  then have "map (\<lambda>r. ?store ! r) [0..<?n + length ?new] = ?store"
    by (metis map_nth)
  then show ?thesis
    by (simp add: merge_known_hosts_def push mark)
qed

lemma names_host_iff:
  "names_host h name
     \<longleftrightarrow> map_of h ''hostname'' = Some (JStr name) \<or> map_of h ''alias'' = Some (JStr name)"
  by (auto simp: names_host_def js_get_def split: option.splits)

lemma unmatched_iff:
  "\<not> list_ex (\<lambda>h. names_host h name) configHosts
     \<longleftrightarrow> \<not> (\<exists>h \<in> set configHosts.
            map_of h ''hostname'' = Some (JStr name) \<or> map_of h ''alias'' = Some (JStr name))"
  by (simp add: list_ex_iff names_host_iff)

text \<open>
  Claim C5. For every list of config hosts and every list of known-hosts names,
  \<^verbatim>\<open>getAllKnownHosts\<close> returns the config hosts first, in their order (each now
  carrying \<^verbatim>\<open>source: 'ssh_config'\<close>), and then, for each known-hosts name in file order,
  the record \<^verbatim>\<open>{hostname: name, source: 'known_hosts'}\<close> if and only if no config host
  has a \<^verbatim>\<open>hostname\<close> property or an \<^verbatim>\<open>alias\<close> property that is this name.
\<close>

theorem getAllKnownHosts_config_hosts_first:
  "merge_known_hosts configHosts names
     = map (AList.update ''source'' (JStr ''ssh_config'')) configHosts
       @ map (\<lambda>name. [(''hostname'', JStr name), (''source'', JStr ''known_hosts'')])
           (filter (\<lambda>name. \<not> (\<exists>h \<in> set configHosts.
                               map_of h ''hostname'' = Some (JStr name)
                             \<or> map_of h ''alias'' = Some (JStr name))) names)
   \<and> (processIncludeDirectives depth env configPath = Some configHosts \<longrightarrow>
        getAllKnownHosts depth env configPath knownHostsPath
          = Some (map (AList.update ''source'' (JStr ''ssh_config'')) configHosts
                  @ map (\<lambda>name. [(''hostname'', JStr name), (''source'', JStr ''known_hosts'')])
                      (filter (\<lambda>name. \<not> (\<exists>h \<in> set configHosts.
                                          map_of h ''hostname'' = Some (JStr name)
                                        \<or> map_of h ''alias'' = Some (JStr name)))
                         (parseKnownHosts env knownHostsPath))))"
proof -
  have tag: "tag_config_host = AList.update ''source'' (JStr ''ssh_config'')"
    by (rule ext) (simp add: tag_config_host_def)
  have known: "known_host_record = (\<lambda>name. [(''hostname'', JStr name), (''source'', JStr ''known_hosts'')])"
    by (rule ext) (simp add: known_host_record_def)
  have flt: "filter (\<lambda>name. \<not> list_ex (\<lambda>h. names_host h name) configHosts) ns
           = filter (\<lambda>name. \<not> (\<exists>h \<in> set configHosts.
                               map_of h ''hostname'' = Some (JStr name)
                             \<or> map_of h ''alias'' = Some (JStr name))) ns" for ns
    by (rule filter_cong) (simp_all only: unmatched_iff)
  have "merge_known_hosts configHosts ns
     = map (AList.update ''source'' (JStr ''ssh_config'')) configHosts
       @ map (\<lambda>name. [(''hostname'', JStr name), (''source'', JStr ''known_hosts'')])
           (filter (\<lambda>name. \<not> (\<exists>h \<in> set configHosts.
                               map_of h ''hostname'' = Some (JStr name)
                             \<or> map_of h ''alias'' = Some (JStr name))) ns)" for ns
    unfolding merge_known_hosts_eq tag known flt ..
  then show ?thesis by (simp add: getAllKnownHosts_def)
qed

theorem getAllKnownHosts_config_hosts_first_witness:
  "processIncludeDirectives 2 registry_fs ''/A''
     = Some [[(''hostname'', JStr ''h2.example.com''), (''alias'', JStr ''h2''),
              (''configFile'', JStr ''/B'')],
             [(''hostname'', JStr ''h1.example.com''), (''alias'', JStr ''h1''),
              (''configFile'', JStr ''/A''), (''port'', JNum (Num 2222))]]
   \<and> parseKnownHosts registry_fs ''/known_hosts'' = [''h1'', ''h2.example.com'', ''db9'']
   \<and> getAllKnownHosts 2 registry_fs ''/A'' ''/known_hosts''
     = Some [[(''hostname'', JStr ''h2.example.com''), (''alias'', JStr ''h2''),
              (''configFile'', JStr ''/B''), (''source'', JStr ''ssh_config'')],
             [(''hostname'', JStr ''h1.example.com''), (''alias'', JStr ''h1''),
              (''configFile'', JStr ''/A''), (''port'', JNum (Num 2222)),
              (''source'', JStr ''ssh_config'')],
             [(''hostname'', JStr ''db9''), (''source'', JStr ''known_hosts'')]]"
proof -
  let ?cs = "[[(''hostname'', JStr ''h2.example.com''), (''alias'', JStr ''h2''),
              (''configFile'', JStr ''/B'')],
             [(''hostname'', JStr ''h1.example.com''), (''alias'', JStr ''h1''),
              (''configFile'', JStr ''/A''), (''port'', JNum (Num 2222))]]"
  let ?rhs = "map (AList.update ''source'' (JStr ''ssh_config'')) ?cs
                  @ map (\<lambda>name. [(''hostname'', JStr name), (''source'', JStr ''known_hosts'')])
                      (filter (\<lambda>name. \<not> (\<exists>h \<in> set ?cs.
                                          map_of h ''hostname'' = Some (JStr name)
                                        \<or> map_of h ''alias'' = Some (JStr name)))
                         (parseKnownHosts registry_fs ''/known_hosts''))"
  have p: "processIncludeDirectives 2 registry_fs ''/A'' = Some ?cs"
    by code_simp
  have k: "parseKnownHosts registry_fs ''/known_hosts'' = [''h1'', ''h2.example.com'', ''db9'']"
    by code_simp
  have "processIncludeDirectives 2 registry_fs ''/A'' = Some ?cs \<longrightarrow>
        getAllKnownHosts 2 registry_fs ''/A'' ''/known_hosts'' = Some ?rhs"
    using getAllKnownHosts_config_hosts_first [of ?cs "[]" 2 registry_fs "''/A''" "''/known_hosts''"]
    by (elim conjE)
  with p have g: "getAllKnownHosts 2 registry_fs ''/A'' ''/known_hosts'' = Some ?rhs"
    by (rule mp [rotated])
  have v: "?rhs
     = [[(''hostname'', JStr ''h2.example.com''), (''alias'', JStr ''h2''),
              (''configFile'', JStr ''/B''), (''source'', JStr ''ssh_config'')],
             [(''hostname'', JStr ''h1.example.com''), (''alias'', JStr ''h1''),
              (''configFile'', JStr ''/A''), (''port'', JNum (Num 2222)),
              (''source'', JStr ''ssh_config'')],
             [(''hostname'', JStr ''db9''), (''source'', JStr ''known_hosts'')]]"
    unfolding k by simp
  from p k g show ?thesis unfolding v by (intro conjI)
qed

section \<open>Properties of processIncludeDirectives\<close>












lemma processIncludeDirectives_absent:
  "\<not> existsSync env path \<Longrightarrow> processIncludeDirectives (Suc k) env path = Some []"
  "existsSync env path \<Longrightarrow> readFile env path = Inl e
     \<Longrightarrow> processIncludeDirectives (Suc k) env path = Some []"
  "existsSync env path \<Longrightarrow> readFile env path = Inr content \<Longrightarrow> parse env content = Inl e
     \<Longrightarrow> processIncludeDirectives (Suc k) env path = Some []"
  by simp_all



lemma processIncludeDirectives_self_include:
  "processIncludeDirectives k slip_fs ''/C'' = None"
proof (induction k)
  case 0
  show ?case by simp
next
  case (Suc k)
  have ex: "existsSync slip_fs ''/C''" and rd: "readFile slip_fs ''/C'' = Inr ''/C''"
    and pa: "parse slip_fs ''/C'' = Inr config_C"
    by (simp_all add: slip_fs_def)
  have tg: "expand_path slip_fs ''C'' ''/C'' = [''/C'']"
    by code_simp
  have "sections_loop (processIncludeDirectives k slip_fs) slip_fs ''/C'' config_C [] = None"
    by (simp add: config_C_def expandIncludePath_def tg Suc)
  with ex rd pa show ?case by simp
qed



end
